theory Spec2Isabelle
  imports Complex_Main "HOL-Library.AList" "HOL-Library.Log_Nat"
begin

section \<open>Exam timer (useExamTimer)\<close>







section \<open>Cheat detector (useAntiCheat)\<close>

text \<open>
  The hook keeps the state \<^verbatim>\<open>warningCount\<close>, the state \<^verbatim>\<open>showWarningModal\<close> and the ref
  \<^verbatim>\<open>hasReachedMaxWarnings\<close>. The two handlers read \<^verbatim>\<open>warningCount\<close> from the closure of
  the render that subscribed them, so the model keeps that captured value apart
  (\<open>capturedCount\<close>); the effect lists \<^verbatim>\<open>warningCount\<close> among its dependencies and subscribes
  fresh handlers after every render that changed it (\<open>Rerender\<close>).
  Each handler returns the callbacks it invoked, in order.
\<close>

record anticheat_state =
  warningCount :: int
  showWarningModal :: bool
  hasReachedMaxWarnings :: bool
  capturedCount :: int

datatype callback = OnWarning int | OnMaxWarningsReached

datatype focus_event = VisibilityChange bool | Blur | Rerender | CloseWarningModal

definition handleVisibilityChange ::
    "int \<Rightarrow> bool \<Rightarrow> anticheat_state \<Rightarrow> anticheat_state \<times> callback list" where
  "handleVisibilityChange maxWarnings hidden s =
     (if hidden \<and> \<not> hasReachedMaxWarnings s then
        let newCount = capturedCount s + 1;
            s1 = s\<lparr>warningCount := newCount, showWarningModal := True\<rparr>
        in if newCount \<ge> maxWarnings
           then (s1\<lparr>hasReachedMaxWarnings := True\<rparr>, [OnWarning newCount, OnMaxWarningsReached])
           else (s1, [OnWarning newCount])
      else (s, []))"

definition handleBlur :: "int \<Rightarrow> anticheat_state \<Rightarrow> anticheat_state \<times> callback list" where
  "handleBlur maxWarnings s =
     (if \<not> hasReachedMaxWarnings s then
        let newCount = capturedCount s + 1;
            s1 = s\<lparr>warningCount := newCount, showWarningModal := True\<rparr>
        in if newCount \<ge> maxWarnings
           then (s1\<lparr>hasReachedMaxWarnings := True\<rparr>, [OnWarning newCount, OnMaxWarningsReached])
           else (s1, [OnWarning newCount])
      else (s, []))"

text \<open>
  With \<^verbatim>\<open>enabled\<close> false the effect returns before subscribing, so no handler runs.
  \<open>hidden\<close> is the value of \<^verbatim>\<open>document.hidden\<close> when the visibility event arrives.
\<close>

fun anticheat_step ::
    "bool \<Rightarrow> int \<Rightarrow> anticheat_state \<Rightarrow> focus_event \<Rightarrow> anticheat_state \<times> callback list" where
  "anticheat_step enabled maxWarnings s (VisibilityChange hidden) =
     (if enabled then handleVisibilityChange maxWarnings hidden s else (s, []))"
| "anticheat_step enabled maxWarnings s Blur =
     (if enabled then handleBlur maxWarnings s else (s, []))"
| "anticheat_step enabled maxWarnings s Rerender = (s\<lparr>capturedCount := warningCount s\<rparr>, [])"
| "anticheat_step enabled maxWarnings s CloseWarningModal = (s\<lparr>showWarningModal := False\<rparr>, [])"

fun anticheat_run ::
    "bool \<Rightarrow> int \<Rightarrow> anticheat_state \<Rightarrow> focus_event list \<Rightarrow> anticheat_state \<times> callback list" where
  "anticheat_run enabled maxWarnings s [] = (s, [])"
| "anticheat_run enabled maxWarnings s (e # es) =
     (let (s1, cs1) = anticheat_step enabled maxWarnings s e;
          (s2, cs2) = anticheat_run enabled maxWarnings s1 es
      in (s2, cs1 @ cs2))"

definition anticheat_init :: anticheat_state where
  "anticheat_init =
     \<lparr>warningCount = 0, showWarningModal = False, hasReachedMaxWarnings = False,
      capturedCount = 0\<rparr>"

text \<open>
  The threshold that the page passes to the hook, \<^verbatim>\<open>exam?.max_warnings || 2\<close>: 2 while the
  exam is not loaded and when its \<^verbatim>\<open>max_warnings\<close> is 0.
\<close>

definition page_maxWarnings :: "int option \<Rightarrow> int" where
  "page_maxWarnings max_warnings =
     (case max_warnings of None \<Rightarrow> 2 | Some m \<Rightarrow> if m = 0 then 2 else m)"

text \<open>The count shown after a sequence of events, and the callbacks invoked during it.\<close>

definition count_after :: "int \<Rightarrow> focus_event list \<Rightarrow> int" where
  "count_after maxWarnings es = warningCount (fst (anticheat_run True maxWarnings anticheat_init es))"

definition calls_during :: "int \<Rightarrow> focus_event list \<Rightarrow> callback list" where
  "calls_during maxWarnings es = snd (anticheat_run True maxWarnings anticheat_init es)"

text \<open>The callbacks invoked by the event \<open>e\<close> when it arrives after the events \<open>es\<close>.\<close>

definition calls_at :: "int \<Rightarrow> focus_event list \<Rightarrow> focus_event \<Rightarrow> callback list" where
  "calls_at maxWarnings es e =
     snd (anticheat_step True maxWarnings (fst (anticheat_run True maxWarnings anticheat_init es)) e)"

text \<open>
  The events that are a loss of focus: a blur, and a visibility change that finds the
  document hidden. \<open>losses\<close> counts them.
\<close>

fun is_loss :: "focus_event \<Rightarrow> bool" where
  "is_loss Blur = True"
| "is_loss (VisibilityChange hidden) = hidden"
| "is_loss Rerender = False"
| "is_loss CloseWarningModal = False"

definition losses :: "focus_event list \<Rightarrow> nat" where
  "losses es = length (filter is_loss es)"

text \<open>
  The losses that arrive at handlers holding the current count (\<open>fresh\<close>): after a
  loss the handlers are stale until the page has rendered again, and a loss that arrives at
  stale handlers sets the count they already set.
\<close>

fun episodes :: "bool \<Rightarrow> focus_event list \<Rightarrow> nat" where
  "episodes fresh [] = 0"
| "episodes fresh (e # es) =
     (if e = Rerender then episodes True es
      else if is_loss e then (if fresh then 1 else 0) + episodes False es
      else episodes fresh es)"

text \<open>The page renders after every event.\<close>

definition rerendered :: "focus_event list \<Rightarrow> focus_event list" where
  "rerendered es = concat (map (\<lambda>e. [e, Rerender]) es)"

text \<open>
  The invariant of the detector: the captured count lags the displayed one by at most one,
  the count never passes the threshold, and the ref is set exactly when the threshold is met.
\<close>

definition ac_inv :: "int \<Rightarrow> anticheat_state \<Rightarrow> bool" where
  "ac_inv maxWarnings s \<longleftrightarrow>
     capturedCount s \<le> warningCount s \<and> warningCount s \<le> capturedCount s + 1 \<and>
     warningCount s \<le> maxWarnings \<and>
     (hasReachedMaxWarnings s \<longleftrightarrow> warningCount s = maxWarnings)"

section \<open>Sessions and answers (TakeExam)\<close>

text \<open>
  The rows of the tables \<^verbatim>\<open>exam_sessions\<close> and \<^verbatim>\<open>student_answers\<close>, with the columns the
  page reads or writes (the generated \<^verbatim>\<open>id\<close> and \<^verbatim>\<open>created_at\<close> of an answer are left out:
  no request of the page carries them). Timestamps are milliseconds since the epoch.
\<close>

text \<open>
  A text typed by a student or a teacher is a JavaScript string, a sequence of UTF-16 code
  units; ids are kept as Isabelle strings. \<open>utf16\<close> gives the code units of an ASCII
  literal.
\<close>

type_synonym jsstring = "int list"

definition utf16 :: "string \<Rightarrow> jsstring" where
  "utf16 s = map of_char s"

datatype session_status = in_progress | submitted | auto_submitted | blocked

record exam_session =
  s_id :: string
  s_exam_id :: string
  s_student_id :: string
  started_at :: int
  submitted_at :: "int option"
  status :: session_status
  warning_count :: int
  last_warning_at :: "int option"
  is_locked :: bool

record student_answer =
  sa_session_id :: string
  sa_question_id :: string
  sa_answer_text :: "jsstring option"
  sa_selected_option_id :: "string option"
  sa_is_correct :: "bool option"
  sa_points_earned :: "real option"
  last_saved_at :: int

record database =
  exam_sessions :: "exam_session list"
  student_answers :: "student_answer list"

text \<open>The in-memory \<^verbatim>\<open>Answer\<close> of the page; an absent or undefined field is \<open>None\<close>.\<close>

record answer =
  question_id :: string
  answer_text :: "jsstring option"
  selected_option_id :: "string option"

text \<open>
  What an awaited request to the store does: it writes and resolves, it resolves with
  \<^verbatim>\<open>error\<close> set and nothing written, or the promise rejects and the \<^verbatim>\<open>await\<close> throws.
\<close>

datatype request_outcome = Stored | ErrorResult | Rejected

datatype save_status = idle | saving | saved

text \<open>
  The state of the page: the React state \<^verbatim>\<open>session\<close>, \<^verbatim>\<open>answers\<close> (a
  \<^verbatim>\<open>Record<string, Answer>\<close>, kept as an association list in insertion order),
  \<^verbatim>\<open>submitting\<close> and \<^verbatim>\<open>autoSaveStatus\<close>, the address \<^verbatim>\<open>window.location.href\<close>, and
  the messages passed to \<^verbatim>\<open>console.error\<close>.
\<close>

record take_exam =
  session :: "exam_session option"
  answers :: "(string \<times> answer) list"
  submitting :: bool
  autoSaveStatus :: save_status
  location :: string
  console_errors :: "string list"

text \<open>\<^verbatim>\<open>x || null\<close> and \<^verbatim>\<open>x || undefined\<close> on an optional string: the empty string is falsy.\<close>

definition or_null :: "'a list option \<Rightarrow> 'a list option" where
  "or_null x = (case x of None \<Rightarrow> None | Some s \<Rightarrow> if s = [] then None else Some s)"

definition handleAnswerChange :: "string \<Rightarrow> answer \<Rightarrow> take_exam \<Rightarrow> take_exam" where
  "handleAnswerChange questionId a c = c\<lparr>answers := AList.update questionId a (answers c)\<rparr>"

text \<open>
  The request \<^verbatim>\<open>.upsert({session_id, question_id, answer_text, selected_option_id,
  last_saved_at})\<close> of \<^verbatim>\<open>autoSaveAnswers\<close>, when it reaches the store. The request names no
  conflict target, and an upsert without one is resolved on the primary key (the default
  of the client library of the store, which is not part of the sources). The schema makes
  the generated \<^verbatim>\<open>id\<close> the primary key of \<^verbatim>\<open>student_answers\<close>; the request carries no
  \<^verbatim>\<open>id\<close>, so the row gets a fresh one, never conflicts on it, and the request is an
  insert. The schema also declares \<^verbatim>\<open>UNIQUE(session_id, question_id)\<close>: when the store
  holds a row for the pair the insert is rejected and nothing is written (the request then
  resolves with \<^verbatim>\<open>error\<close> set, which the page does not read); otherwise the row is added
  with the defaults of the schema for the other columns.
\<close>

definition upsert_answer ::
    "string \<Rightarrow> string \<Rightarrow> jsstring option \<Rightarrow> string option \<Rightarrow> int \<Rightarrow>
     student_answer list \<Rightarrow> student_answer list" where
  "upsert_answer sid qid txt sel now rows =
     (if list_ex (\<lambda>r. sa_session_id r = sid \<and> sa_question_id r = qid) rows
      then rows
      else rows @ [\<lparr>sa_session_id = sid, sa_question_id = qid, sa_answer_text = txt,
                     sa_selected_option_id = sel, sa_is_correct = None,
                     sa_points_earned = None, last_saved_at = now\<rparr>])"

text \<open>
  The loop of \<^verbatim>\<open>autoSaveAnswers\<close> over \<^verbatim>\<open>Object.entries(answers)\<close>. \<open>outcome\<close> gives what
  happens to the request for each question on its way: it reaches the store (\<open>Stored\<close>),
  it resolves with an error before that, or the promise rejects. A returned error, of the
  way or of the store, is not looked at and the loop goes on; a rejection leaves the loop for
  the \<^verbatim>\<open>catch\<close>. The boolean says whether the loop completed.
\<close>

fun save_entries ::
    "string \<Rightarrow> int \<Rightarrow> (string \<Rightarrow> request_outcome) \<Rightarrow> (string \<times> answer) list \<Rightarrow>
     student_answer list \<Rightarrow> student_answer list \<times> bool" where
  "save_entries sid now outcome [] rows = (rows, True)"
| "save_entries sid now outcome ((questionId, a) # entries) rows =
     (case outcome questionId of
        Stored \<Rightarrow>
          save_entries sid now outcome entries
            (upsert_answer sid questionId (or_null (answer_text a))
               (or_null (selected_option_id a)) now rows)
      | ErrorResult \<Rightarrow> save_entries sid now outcome entries rows
      | Rejected \<Rightarrow> (rows, False))"

text \<open>
  \<^verbatim>\<open>autoSaveAnswers\<close>. The status passes through \<open>saving\<close>; the timeout that puts it back to
  \<open>idle\<close> two seconds after \<open>saved\<close> is not part of the model.
\<close>

definition autoSaveAnswers ::
    "int \<Rightarrow> (string \<Rightarrow> request_outcome) \<Rightarrow> database \<times> take_exam \<Rightarrow> database \<times> take_exam" where
  "autoSaveAnswers now outcome = (\<lambda>(db, c).
     case session c of
       None \<Rightarrow> (db, c)
     | Some s \<Rightarrow>
         let (rows, completed) =
               save_entries (s_id s) now outcome (answers c) (student_answers db);
             db1 = db\<lparr>student_answers := rows\<rparr>
         in if completed then (db1, c\<lparr>autoSaveStatus := saved\<rparr>)
            else (db1, c\<lparr>autoSaveStatus := idle,
                          console_errors := console_errors c @ [''Error auto-saving answers:'']\<rparr>))"

text \<open>\<^verbatim>\<open>.update(fields).eq('id', sid)\<close> on \<^verbatim>\<open>exam_sessions\<close>.\<close>

definition update_session :: "string \<Rightarrow> (exam_session \<Rightarrow> exam_session) \<Rightarrow> database \<Rightarrow> database" where
  "update_session sid f db =
     db\<lparr>exam_sessions := map (\<lambda>r. if s_id r = sid then f r else r) (exam_sessions db)\<rparr>"

definition handleWarning :: "int \<Rightarrow> int \<Rightarrow> request_outcome \<Rightarrow> database \<times> take_exam \<Rightarrow> database \<times> take_exam" where
  "handleWarning count now outcome = (\<lambda>(db, c).
     case session c of
       None \<Rightarrow> (db, c)
     | Some s \<Rightarrow>
         (case outcome of
            Stored \<Rightarrow>
              (update_session (s_id s)
                 (\<lambda>r. r\<lparr>warning_count := count, last_warning_at := Some now\<rparr>) db, c)
          | ErrorResult \<Rightarrow> (db, c)
          | Rejected \<Rightarrow> (db, c)))"

text \<open>
  \<^verbatim>\<open>submitExam\<close>. \<open>now\<close> is the clock read by the call, \<open>saveOutcome\<close> the outcomes of the
  requests of the flush and \<open>lockOutcome\<close> the outcome of the update that locks the session.
  The result of that update is awaited and not inspected, so a returned error is followed by
  the navigation like a success; only a rejection reaches the \<^verbatim>\<open>catch\<close>.
\<close>

definition submitExam ::
    "bool \<Rightarrow> int \<Rightarrow> (string \<Rightarrow> request_outcome) \<Rightarrow> request_outcome \<Rightarrow>
     database \<times> take_exam \<Rightarrow> database \<times> take_exam" where
  "submitExam autoSubmit now saveOutcome lockOutcome = (\<lambda>(db, c).
     case session c of
       None \<Rightarrow> (db, c)
     | Some s \<Rightarrow>
         let (db1, c1) = autoSaveAnswers now saveOutcome (db, c\<lparr>submitting := True\<rparr>)
         in (case lockOutcome of
               Stored \<Rightarrow>
                 (update_session (s_id s)
                    (\<lambda>r. r\<lparr>status := (if autoSubmit then auto_submitted else submitted),
                            submitted_at := Some now, is_locked := True\<rparr>) db1,
                  c1\<lparr>location := ''/''\<rparr>)
             | ErrorResult \<Rightarrow> (db1, c1\<lparr>location := ''/''\<rparr>)
             | Rejected \<Rightarrow>
                 (db1, c1\<lparr>submitting := False,
                          console_errors := console_errors c1 @ [''Error submitting exam:'']\<rparr>)))"

text \<open>
  \<^verbatim>\<open>handleMaxWarnings\<close>: its own update of the session (at time \<open>now1\<close>, with outcome
  \<open>outcome1\<close>), then \<^verbatim>\<open>submitExam(true)\<close>. A rejection of the first request leaves the
  handler before \<^verbatim>\<open>submitExam\<close> is called.

  The handler is memoised by \<^verbatim>\<open>useCallback\<close> on \<^verbatim>\<open>[session]\<close>, so the function that runs, and
  the \<^verbatim>\<open>submitExam\<close> and \<^verbatim>\<open>autoSaveAnswers\<close> it calls, are those of the render in which
  \<^verbatim>\<open>session\<close> last changed. \<^verbatim>\<open>session\<close> changes once, at \<^verbatim>\<open>setSession(sessionData)\<close> in
  \<^verbatim>\<open>loadExam\<close>, which awaits the questions before it reaches \<^verbatim>\<open>setAnswers\<close>: in that
  render \<^verbatim>\<open>session\<close> is the session of the page and \<^verbatim>\<open>answers\<close> is the initial \<^verbatim>\<open>{}\<close>.
  \<open>submitExam_of_session_render\<close> is \<^verbatim>\<open>submitExam(true)\<close> of that render: it reads the empty
  \<^verbatim>\<open>answers\<close>, and its state updates reach the page, whose \<^verbatim>\<open>answers\<close> stay as they are.
\<close>

definition submitExam_of_session_render ::
    "int \<Rightarrow> (string \<Rightarrow> request_outcome) \<Rightarrow> request_outcome \<Rightarrow>
     database \<times> take_exam \<Rightarrow> database \<times> take_exam" where
  "submitExam_of_session_render now saveOutcome lockOutcome = (\<lambda>(db, c).
     let (db1, c1) = submitExam True now saveOutcome lockOutcome (db, c\<lparr>answers := []\<rparr>)
     in (db1, c1\<lparr>answers := answers c\<rparr>))"

definition handleMaxWarnings ::
    "int \<Rightarrow> request_outcome \<Rightarrow> int \<Rightarrow> (string \<Rightarrow> request_outcome) \<Rightarrow> request_outcome \<Rightarrow>
     database \<times> take_exam \<Rightarrow> database \<times> take_exam" where
  "handleMaxWarnings now1 outcome1 now2 saveOutcome lockOutcome = (\<lambda>(db, c).
     case session c of
       None \<Rightarrow> (db, c)
     | Some s \<Rightarrow>
         (case outcome1 of
            Stored \<Rightarrow>
              submitExam_of_session_render now2 saveOutcome lockOutcome
                (update_session (s_id s)
                   (\<lambda>r. r\<lparr>status := auto_submitted, submitted_at := Some now1,
                           is_locked := True\<rparr>) db, c)
          | ErrorResult \<Rightarrow> submitExam_of_session_render now2 saveOutcome lockOutcome (db, c)
          | Rejected \<Rightarrow> (db, c)))"

text \<open>
  The saved answers of a session as \<^verbatim>\<open>loadExam\<close> puts them into \<^verbatim>\<open>answersMap\<close>.
\<close>

definition load_answers :: "string \<Rightarrow> student_answer list \<Rightarrow> (string \<times> answer) list" where
  "load_answers sid rows =
     fold (\<lambda>r answersMap.
             AList.update (sa_question_id r)
               \<lparr>question_id = sa_question_id r,
                answer_text = or_null (sa_answer_text r),
                selected_option_id = or_null (sa_selected_option_id r)\<rparr> answersMap)
          (filter (\<lambda>r. sa_session_id r = sid) rows) []"

text \<open>
  \<^verbatim>\<open>loadExam\<close>, the part that creates or resumes the session and reloads the answers.
  \<open>examError\<close> and \<open>questionsError\<close> say whether reading the exam or its questions failed;
  \<open>insertOutcome\<close> is the outcome of the insert of a new session, \<open>newId\<close> the id the
  store generates for it and \<open>now\<close> the time of the store.
\<close>

datatype load_result = Redirected | Loaded | LoadFailed

definition enter_session ::
    "exam_session \<Rightarrow> bool \<Rightarrow> database \<times> take_exam \<Rightarrow> load_result \<times> database \<times> take_exam" where
  "enter_session sessionData questionsError = (\<lambda>(db, c).
     let c1 = c\<lparr>session := Some sessionData\<rparr>
     in if questionsError
        then (LoadFailed, db, c1\<lparr>console_errors := console_errors c1 @ [''Error loading exam:'']\<rparr>)
        else (Loaded, db, c1\<lparr>answers := load_answers (s_id sessionData) (student_answers db)\<rparr>))"

text \<open>
  The row that the store makes of the insert \<^verbatim>\<open>{exam_id, student_id, status: 'in_progress'}\<close>
  with the defaults of the schema: a generated id, \<^verbatim>\<open>started_at\<close> the time of the insert,
  no submission time, no warnings, not locked.
\<close>

definition new_session :: "string \<Rightarrow> string \<Rightarrow> string \<Rightarrow> int \<Rightarrow> exam_session" where
  "new_session newId examId studentId now =
     \<lparr>s_id = newId, s_exam_id = examId, s_student_id = studentId,
      started_at = now, submitted_at = None, status = in_progress,
      warning_count = 0, last_warning_at = None, is_locked = False\<rparr>"

text \<open>The read of the session of an exam and a student (the pair is unique in the schema).\<close>

definition existing_session :: "string \<Rightarrow> string \<Rightarrow> database \<Rightarrow> exam_session option" where
  "existing_session examId studentId db =
     find (\<lambda>s. s_exam_id s = examId \<and> s_student_id s = studentId) (exam_sessions db)"

definition loadExam ::
    "string \<Rightarrow> string \<Rightarrow> bool \<Rightarrow> string \<Rightarrow> int \<Rightarrow> request_outcome \<Rightarrow> bool \<Rightarrow>
     database \<times> take_exam \<Rightarrow> load_result \<times> database \<times> take_exam" where
  "loadExam examId studentId examError newId now insertOutcome questionsError = (\<lambda>(db, c).
     if examError
     then (LoadFailed, db, c\<lparr>console_errors := console_errors c @ [''Error loading exam:'']\<rparr>)
     else
       case existing_session examId studentId db of
         Some existingSession \<Rightarrow>
           (if is_locked existingSession \<or> status existingSession = submitted
               \<or> status existingSession = auto_submitted
            then (Redirected, db, c\<lparr>location := ''/''\<rparr>)
            else enter_session existingSession questionsError (db, c))
       | None \<Rightarrow>
           (case insertOutcome of
              Stored \<Rightarrow>
                let newSession = new_session newId examId studentId now
                in enter_session newSession questionsError
                     (db\<lparr>exam_sessions := exam_sessions db @ [newSession]\<rparr>, c)
            | ErrorResult \<Rightarrow>
                (LoadFailed, db, c\<lparr>console_errors := console_errors c @ [''Error loading exam:'']\<rparr>)
            | Rejected \<Rightarrow>
                (LoadFailed, db, c\<lparr>console_errors := console_errors c @ [''Error loading exam:'']\<rparr>)))"

text \<open>
  The invariant of a session in the data model: it is locked exactly when its status has
  left \<open>in_progress\<close>.
\<close>

definition session_inv :: "exam_session \<Rightarrow> bool" where
  "session_inv s \<longleftrightarrow> (is_locked s \<longleftrightarrow> status s \<noteq> in_progress)"

definition session_row :: "string \<Rightarrow> database \<Rightarrow> exam_session option" where
  "session_row sid db = find (\<lambda>r. s_id r = sid) (exam_sessions db)"

text \<open>A session in progress, its database and its page, for the concrete evaluations below.\<close>

definition all_stored :: "string \<Rightarrow> request_outcome" where
  "all_stored questionId = Stored"

definition example_session :: exam_session where
  "example_session =
     \<lparr>s_id = ''s1'', s_exam_id = ''e1'', s_student_id = ''u1'', started_at = 0,
      submitted_at = None, status = in_progress, warning_count = 0,
      last_warning_at = None, is_locked = False\<rparr>"

definition example_db :: database where
  "example_db = \<lparr>exam_sessions = [example_session], student_answers = []\<rparr>"

definition example_page :: take_exam where
  "example_page =
     \<lparr>session = Some example_session, answers = [], submitting = False,
      autoSaveStatus = idle, location = ''/exam/e1'', console_errors = []\<rparr>"


text \<open>
  What the autosave writes of an answer, read back: the key as question, and the two fields
  with the empty string turned into an absent value.
\<close>

definition saved_form :: "string \<Rightarrow> answer \<Rightarrow> answer" where
  "saved_form questionId a =
     \<lparr>question_id = questionId, answer_text = or_null (answer_text a),
      selected_option_id = or_null (selected_option_id a)\<rparr>"

text \<open>An answer that carries either a text or a selected option, and not both.\<close>

definition carries_one :: "answer \<Rightarrow> bool" where
  "carries_one a \<longleftrightarrow>
     (or_null (answer_text a) \<noteq> None \<and> selected_option_id a = None) \<or>
     (answer_text a = None \<and> or_null (selected_option_id a) \<noteq> None)"

text \<open>The entry of \<^verbatim>\<open>answersMap\<close> that a stored row gives, and the answers of a session as a map.\<close>

definition row_entry :: "student_answer \<Rightarrow> string \<times> answer" where
  "row_entry r =
     (sa_question_id r,
      \<lparr>question_id = sa_question_id r, answer_text = or_null (sa_answer_text r),
       selected_option_id = or_null (sa_selected_option_id r)\<rparr>)"

definition stored_view :: "string \<Rightarrow> student_answer list \<Rightarrow> string \<rightharpoonup> answer" where
  "stored_view sid rows =
     map_of (rev (map row_entry (filter (\<lambda>r. sa_session_id r = sid) rows)))"

text \<open>A page with two answers, over a store that holds an older text for the first.\<close>

definition example_answers :: "(string \<times> answer) list" where
  "example_answers =
     [(''q1'', \<lparr>question_id = ''q1'', answer_text = Some (utf16 ''Paris''), selected_option_id = None\<rparr>),
      (''q2'', \<lparr>question_id = ''q2'', answer_text = None, selected_option_id = Some ''o7''\<rparr>)]"

definition example_rows :: "student_answer list" where
  "example_rows =
     [\<lparr>sa_session_id = ''s1'', sa_question_id = ''q1'', sa_answer_text = Some (utf16 ''Par''),
       sa_selected_option_id = None, sa_is_correct = None, sa_points_earned = None,
       last_saved_at = 100\<rparr>]"

section \<open>Grading (GradeExam, StudentExamResult)\<close>

text \<open>
  Questions with their nested options as the grading page reads them, and the rows of
  \<^verbatim>\<open>student_answers\<close> above as its \<^verbatim>\<open>StudentAnswer\<close>. Points are numbers of the store and
  are modelled as reals.
\<close>

datatype question_kind = mcq | true_false | short_answer | long_answer

record question_option =
  o_id :: string
  is_correct :: bool

record question =
  q_id :: string
  points :: real
  question_type :: question_kind
  correct_answer :: "jsstring option"
  question_options :: "question_option list option"

text \<open>
  A JavaScript number is an IEEE 754 double, kept here as the real number it stands for, or
  \<^verbatim>\<open>NaN\<close>. The operations \<^verbatim>\<open>+\<close>, \<^verbatim>\<open>/\<close> and \<^verbatim>\<open>*\<close> return the double nearest to the exact
  result, a tie going to the double whose last bit is 0: \<open>round64\<close>. For a positive \<open>x\<close>
  with \<open>2 ^ e \<le> x < 2 ^ (e + 1)\<close> (\<open>e\<close> is \<open>exponent x\<close>) the doubles around \<open>x\<close> are the
  multiples of \<open>2 ^ (e - 52)\<close>, and of \<open>2 ^ (- 1074)\<close> when \<open>e\<close> is below \<open>- 1022\<close>: \<open>ulp x\<close>.

  A double overflows to \<^verbatim>\<open>Infinity\<close> from \<open>2 ^ 1024\<close> on, which is outside the model: the
  points of a question are a 32-bit integer column of the store, a grade that is typed is
  clamped to them, and the sums of the page stay far below.
\<close>

definition pow2 :: "int \<Rightarrow> real" where
  "pow2 e = (if 0 \<le> e then 2 ^ nat e else 1 / 2 ^ nat (- e))"

definition exponent :: "real \<Rightarrow> int" where
  "exponent x = (if 1 \<le> x then bitlen \<lfloor>x\<rfloor> - 1 else - bitlen (\<lceil>1 / x\<rceil> - 1))"

definition ulp :: "real \<Rightarrow> real" where
  "ulp x = pow2 (max (- 1022) (exponent \<bar>x\<bar>) - 52)"

definition roundTiesToEven :: "real \<Rightarrow> int" where
  "roundTiesToEven y =
     (let n = \<lfloor>y\<rfloor>; f = y - of_int n
      in if f < 1 / 2 then n else if 1 / 2 < f then n + 1 else if even n then n else n + 1)"

definition round64 :: "real \<Rightarrow> real" where
  "round64 x =
     (if x = 0 then 0 else sgn x * (of_int (roundTiesToEven (\<bar>x\<bar> / ulp x)) * ulp x))"

text \<open>
  A grade comes from \<^verbatim>\<open>parseFloat\<close> of the input field, which is \<^verbatim>\<open>NaN\<close> when the field holds
  no number. \<^verbatim>\<open>Math.min\<close>, \<^verbatim>\<open>Math.max\<close> and \<^verbatim>\<open>+\<close> return \<^verbatim>\<open>NaN\<close> when an argument is
  \<^verbatim>\<open>NaN\<close>, and every comparison with \<^verbatim>\<open>NaN\<close> is false. \<^verbatim>\<open>Math.min\<close>, \<^verbatim>\<open>Math.max\<close> and the
  comparisons are exact.
\<close>

datatype jsnum = Num real | NaN

fun js_add :: "jsnum \<Rightarrow> jsnum \<Rightarrow> jsnum" where
  "js_add (Num a) (Num b) = Num (round64 (a + b))"
| "js_add a b = NaN"

fun js_min :: "jsnum \<Rightarrow> jsnum \<Rightarrow> jsnum" where
  "js_min (Num a) (Num b) = Num (min a b)"
| "js_min a b = NaN"

fun js_max :: "jsnum \<Rightarrow> jsnum \<Rightarrow> jsnum" where
  "js_max (Num a) (Num b) = Num (max a b)"
| "js_max a b = NaN"

fun js_ge :: "jsnum \<Rightarrow> real \<Rightarrow> bool" where
  "js_ge (Num a) b = (a \<ge> b)"
| "js_ge NaN b = False"

text \<open>
  \<^verbatim>\<open>String.prototype.trim\<close> removes the white space and line terminators of ECMAScript
  from both ends: TAB, LF, VT, FF, CR, SP, NBSP, the space separators U+1680, U+2000 to
  U+200A, U+202F, U+205F and U+3000, the separators U+2028 and U+2029, and U+FEFF.
\<close>

definition isWhiteSpace :: "int \<Rightarrow> bool" where
  "isWhiteSpace c \<longleftrightarrow>
     c \<in> set [0x9, 0xA, 0xB, 0xC, 0xD, 0x20, 0xA0, 0x1680, 0x2028, 0x2029, 0x202F, 0x205F,
              0x3000, 0xFEFF] \<or> (0x2000 \<le> c \<and> c \<le> 0x200A)"

definition trim :: "jsstring \<Rightarrow> jsstring" where
  "trim s = rev (dropWhile isWhiteSpace (rev (dropWhile isWhiteSpace s)))"

text \<open>
  \<^verbatim>\<open>String.prototype.toLowerCase\<close> follows the case mappings of Unicode, a table that is
  not part of the sources: the grading functions take it as the parameter \<open>lower\<close> and the
  properties below hold for every such function. \<open>ascii_lower\<close> is what it does on ASCII
  text; the concrete evaluations use it, on ASCII text.
\<close>

definition ascii_lower :: "jsstring \<Rightarrow> jsstring" where
  "ascii_lower s = map (\<lambda>c. if 65 \<le> c \<and> c \<le> 90 then c + 32 else c) s"

text \<open>
  \<^verbatim>\<open>selectedOption?.is_correct ? question.points : 0\<close>, after the option has been looked
  up by its id among the options of the question.
\<close>

definition selectedOptionPoints :: "question \<Rightarrow> string \<Rightarrow> question_option list \<Rightarrow> real" where
  "selectedOptionPoints q sel opts =
     (case find (\<lambda>opt. o_id opt = sel) opts of
        Some selectedOption \<Rightarrow> if is_correct selectedOption then points q else 0
      | None \<Rightarrow> 0)"

text \<open>\<^verbatim>\<open>answers.find(a => a.question_id === question.id)\<close>.\<close>

definition answer_of :: "student_answer list \<Rightarrow> question \<Rightarrow> student_answer option" where
  "answer_of sas q = find (\<lambda>a. sa_question_id a = q_id q) sas"

text \<open>
  The grade that one iteration of \<^verbatim>\<open>handleAutoGrade\<close> stores for a question. \<open>sas\<close> is the
  state \<^verbatim>\<open>answers\<close>. A condition \<^verbatim>\<open>answer?.selected_option_id\<close> or
  \<^verbatim>\<open>answer?.answer_text\<close> holds when the answer exists and the string is not empty.
\<close>

definition autoGrade :: "(jsstring \<Rightarrow> jsstring) \<Rightarrow> student_answer list \<Rightarrow> question \<Rightarrow> real" where
  "autoGrade lower sas q =
     (let answer = answer_of sas q;
          selected = or_null (case answer of None \<Rightarrow> None | Some a \<Rightarrow> sa_selected_option_id a);
          answerText = or_null (case answer of None \<Rightarrow> None | Some a \<Rightarrow> sa_answer_text a)
      in if question_type q = mcq \<and> selected \<noteq> None \<and> question_options q \<noteq> None
         then selectedOptionPoints q (the selected) (the (question_options q))
         else if question_type q = true_false \<and> selected \<noteq> None \<and> question_options q \<noteq> None
         then selectedOptionPoints q (the selected) (the (question_options q))
         else if (question_type q = short_answer \<or> question_type q = long_answer) \<and> answerText \<noteq> None
         then (if or_null (correct_answer q) \<noteq> None \<and> trim (the answerText) \<noteq> []
               then (let studentAnswer = lower (trim (the answerText));
                         modelAnswer = lower (trim (the (correct_answer q)))
                     in if studentAnswer = modelAnswer then points q else 0)
               else 0)
         else 0)"

definition handleAutoGrade ::
    "(jsstring \<Rightarrow> jsstring) \<Rightarrow> question list \<Rightarrow> student_answer list \<Rightarrow>
     (string \<times> jsnum) list \<Rightarrow> (string \<times> jsnum) list" where
  "handleAutoGrade lower qs sas gs =
     fold (\<lambda>q newGrades. AList.update (q_id q) (Num (autoGrade lower sas q)) newGrades) qs gs"

text \<open>
  The initial grades of \<^verbatim>\<open>loadExamData\<close>: the stored \<^verbatim>\<open>points_earned\<close> of the answer when
  there is one, the automatic grade of the selected option otherwise.
\<close>

definition initialGrade :: "student_answer list \<Rightarrow> question \<Rightarrow> real" where
  "initialGrade sas q =
     (let answer = answer_of sas q;
          selected = or_null (case answer of None \<Rightarrow> None | Some a \<Rightarrow> sa_selected_option_id a);
          autoGrade =
            (if selected \<noteq> None \<and> question_options q \<noteq> None
             then selectedOptionPoints q (the selected) (the (question_options q))
             else 0)
      in case (case answer of None \<Rightarrow> None | Some a \<Rightarrow> sa_points_earned a) of
           Some points_earned \<Rightarrow> points_earned
         | None \<Rightarrow> autoGrade)"

definition initialGrades :: "question list \<Rightarrow> student_answer list \<Rightarrow> (string \<times> jsnum) list" where
  "initialGrades qs sas =
     fold (\<lambda>q gs. AList.update (q_id q) (Num (initialGrade sas q)) gs) qs []"

text \<open>
  \<^verbatim>\<open>is_correct\<close> as \<^verbatim>\<open>handleSubmitGrading\<close> stores it with an answer: \<^verbatim>\<open>null\<close> when no
  option is selected, otherwise whether the selected option of the question is correct.
\<close>

definition submitted_is_correct :: "question list \<Rightarrow> student_answer \<Rightarrow> bool option" where
  "submitted_is_correct qs a =
     (case or_null (sa_selected_option_id a) of
        None \<Rightarrow> None
      | Some sel \<Rightarrow>
          Some (case find (\<lambda>q. q_id q = sa_question_id a) qs of
                  None \<Rightarrow> False
                | Some q \<Rightarrow>
                    (case question_options q of
                       None \<Rightarrow> False
                     | Some opts \<Rightarrow>
                         (case find (\<lambda>opt. o_id opt = sel) opts of
                            None \<Rightarrow> False
                          | Some selectedOption \<Rightarrow> is_correct selectedOption))))"

text \<open>\<^verbatim>\<open>handleGradeChange\<close>; \<open>qs\<close> is the state \<^verbatim>\<open>questions\<close> and \<open>gs\<close> the state \<^verbatim>\<open>grades\<close>.\<close>

definition handleGradeChange ::
    "string \<Rightarrow> jsnum \<Rightarrow> question list \<Rightarrow> (string \<times> jsnum) list \<Rightarrow> (string \<times> jsnum) list" where
  "handleGradeChange questionId v qs gs =
     (let question = find (\<lambda>q. q_id q = questionId) qs;
          maxPoints = (case question of None \<Rightarrow> 0 | Some q \<Rightarrow> points q);
          newValue = js_max (Num 0) (js_min v (Num maxPoints))
      in AList.update questionId newValue gs)"

definition calculateTotalPoints :: "(string \<times> jsnum) list \<Rightarrow> jsnum" where
  "calculateTotalPoints gs = foldl (\<lambda>sum grade. js_add sum grade) (Num 0) (map snd gs)"

definition calculateMaxPoints :: "question list \<Rightarrow> real" where
  "calculateMaxPoints qs = foldl (\<lambda>sum q. round64 (sum + points q)) 0 qs"

definition calculatePercentage :: "(string \<times> jsnum) list \<Rightarrow> question list \<Rightarrow> jsnum" where
  "calculatePercentage gs qs =
     (let total = calculateTotalPoints gs;
          max = calculateMaxPoints qs
      in if max > 0
         then (case total of Num t \<Rightarrow> Num (round64 (round64 (t / max) * 100)) | NaN \<Rightarrow> NaN)
         else Num 0)"

text \<open>The grade letter of the grading summary and \<^verbatim>\<open>getGradeLetter\<close> of the result page.\<close>

definition summaryGradeLetter :: "jsnum \<Rightarrow> string" where
  "summaryGradeLetter percentage =
     (if js_ge percentage 90 then ''A''
      else if js_ge percentage 80 then ''B''
      else if js_ge percentage 70 then ''C''
      else if js_ge percentage 60 then ''D'' else ''F'')"

definition getGradeLetter :: "real \<Rightarrow> string" where
  "getGradeLetter percentage =
     (if percentage \<ge> 90 then ''A''
      else if percentage \<ge> 80 then ''B''
      else if percentage \<ge> 70 then ''C''
      else if percentage \<ge> 60 then ''D''
      else ''F'')"

text \<open>
  What the grader does on the page after it has loaded: a grade is typed into the field
  of a question, or the automatic grading is applied.
\<close>

datatype grading_event = GradeChange string jsnum | AutoGrade

fun grading_step ::
    "(jsstring \<Rightarrow> jsstring) \<Rightarrow> question list \<Rightarrow> student_answer list \<Rightarrow>
     (string \<times> jsnum) list \<Rightarrow> grading_event \<Rightarrow> (string \<times> jsnum) list" where
  "grading_step lower qs sas gs (GradeChange questionId v) = handleGradeChange questionId v qs gs"
| "grading_step lower qs sas gs AutoGrade = handleAutoGrade lower qs sas gs"

definition grading_run ::
    "(jsstring \<Rightarrow> jsstring) \<Rightarrow> question list \<Rightarrow> student_answer list \<Rightarrow> grading_event list \<Rightarrow>
     (string \<times> jsnum) list" where
  "grading_run lower qs sas es = foldl (grading_step lower qs sas) (initialGrades qs sas) es"

text \<open>Two questions and the answers of a student, for the concrete evaluations below.\<close>

definition example_mcq :: question where
  "example_mcq =
     \<lparr>q_id = ''q1'', points = 6, question_type = mcq, correct_answer = None,
      question_options = Some [\<lparr>o_id = ''oA'', is_correct = False\<rparr>,
                               \<lparr>o_id = ''oB'', is_correct = True\<rparr>]\<rparr>"

definition example_short :: question where
  "example_short =
     \<lparr>q_id = ''q2'', points = 4, question_type = short_answer,
      correct_answer = Some (utf16 ''Paris''), question_options = Some []\<rparr>"

definition example_student_answers :: "student_answer list" where
  "example_student_answers =
     [\<lparr>sa_session_id = ''s1'', sa_question_id = ''q1'', sa_answer_text = None,
       sa_selected_option_id = Some ''oB'', sa_is_correct = None, sa_points_earned = None,
       last_saved_at = 100\<rparr>,
      \<lparr>sa_session_id = ''s1'', sa_question_id = ''q2'', sa_answer_text = Some (utf16 '' paris  ''),
       sa_selected_option_id = None, sa_is_correct = None, sa_points_earned = None,
       last_saved_at = 100\<rparr>]"

text \<open>A question whose model answer is one space, and an answer of two spaces.\<close>

definition blank_question :: question where
  "blank_question =
     \<lparr>q_id = ''q3'', points = 4, question_type = short_answer,
      correct_answer = Some (utf16 '' ''), question_options = Some []\<rparr>"

definition blank_answer :: student_answer where
  "blank_answer =
     \<lparr>sa_session_id = ''s1'', sa_question_id = ''q3'', sa_answer_text = Some (utf16 ''  ''),
      sa_selected_option_id = None, sa_is_correct = None, sa_points_earned = None,
      last_saved_at = 100\<rparr>"

text \<open>
  The grade stored for a question, \<^verbatim>\<open>grades[question.id]\<close>, and the real number a grade
  stands for.
\<close>

definition pointsEarned :: "(string \<times> jsnum) list \<Rightarrow> question \<Rightarrow> jsnum" where
  "pointsEarned gs q = (case map_of gs (q_id q) of Some g \<Rightarrow> g | None \<Rightarrow> Num 0)"

fun num_value :: "jsnum \<Rightarrow> real" where
  "num_value (Num r) = r"
| "num_value NaN = 0"

text \<open>The sum of a list of numbers as the page takes it: from 0, one addition after the other.\<close>

definition double_sum :: "real list \<Rightarrow> real" where
  "double_sum xs = foldl (\<lambda>sum x. round64 (sum + x)) 0 xs"




definition one_point_question :: question where
  "one_point_question =
     \<lparr>q_id = ''q1'', points = 1, question_type = short_answer, correct_answer = None,
      question_options = None\<rparr>"

text \<open>
  The field of a grade is rendered once per question, so \<^verbatim>\<open>handleGradeChange\<close> is called
  with the id of a question of the page.
\<close>

definition on_questions :: "question list \<Rightarrow> grading_event list \<Rightarrow> bool" where
  "on_questions qs es =
     list_all (\<lambda>e. case e of GradeChange questionId v \<Rightarrow> questionId \<in> q_id ` set qs
                           | AutoGrade \<Rightarrow> True) es"

text \<open>The grader types numbers only.\<close>

definition numeric_events :: "grading_event list \<Rightarrow> bool" where
  "numeric_events es =
     list_all (\<lambda>e. case e of GradeChange questionId v \<Rightarrow> v \<noteq> NaN | AutoGrade \<Rightarrow> True) es"

text \<open>The stored points of the answers lie between 0 and the points of their questions.\<close>

definition stored_points_in_range :: "question list \<Rightarrow> student_answer list \<Rightarrow> bool" where
  "stored_points_in_range qs sas =
     list_all (\<lambda>q. case answer_of sas q of
                      None \<Rightarrow> True
                    | Some a \<Rightarrow>
                        (case sa_points_earned a of
                           None \<Rightarrow> True
                         | Some p \<Rightarrow> 0 \<le> p \<and> p \<le> points q)) qs"

text \<open>Every question has a grade that is a number between 0 and its points.\<close>

definition grades_in_range :: "question list \<Rightarrow> (string \<times> jsnum) list \<Rightarrow> bool" where
  "grades_in_range qs gs =
     list_all (\<lambda>q. case map_of gs (q_id q) of
                      Some (Num r) \<Rightarrow> 0 \<le> r \<and> r \<le> points q
                    | Some NaN \<Rightarrow> False
                    | None \<Rightarrow> False) qs"

section \<open>Properties of the timer\<close>











section \<open>Properties of the cheat detector\<close>

text \<open>For a \<^verbatim>\<open>max_warnings\<close> that is not negative the page passes a threshold of at least 1.\<close>

lemma page_maxWarnings_positive:
  "(case max_warnings of None \<Rightarrow> True | Some m \<Rightarrow> 0 \<le> m) \<Longrightarrow>
   1 \<le> page_maxWarnings max_warnings"
  by (simp add: page_maxWarnings_def split: option.splits)

lemma ac_inv_init: "1 \<le> m \<Longrightarrow> ac_inv m anticheat_init"
  by (simp add: ac_inv_def anticheat_init_def)

lemma ac_step_inv:
  "ac_inv m s \<Longrightarrow> ac_inv m (fst (anticheat_step True m s e))"
  by (cases e) (auto simp: ac_inv_def handleVisibilityChange_def handleBlur_def Let_def)

lemma ac_step_mono:
  "ac_inv m s \<Longrightarrow> warningCount s \<le> warningCount (fst (anticheat_step True m s e))"
  by (cases e) (auto simp: ac_inv_def handleVisibilityChange_def handleBlur_def Let_def)

lemma ac_step_fired:
  "ac_inv m s \<Longrightarrow>
   OnMaxWarningsReached \<in> set (snd (anticheat_step True m s e)) \<longleftrightarrow>
     warningCount s < m \<and> warningCount (fst (anticheat_step True m s e)) = m"
  by (cases e) (auto simp: ac_inv_def handleVisibilityChange_def handleBlur_def Let_def)

lemma ac_step_count:
  "count_list (snd (anticheat_step en m s e)) OnMaxWarningsReached =
     (if OnMaxWarningsReached \<in> set (snd (anticheat_step en m s e)) then 1 else 0)"
  by (cases e) (auto simp: handleVisibilityChange_def handleBlur_def Let_def)

lemma ac_run_append:
  "anticheat_run en m s (es1 @ es2) =
     (let (s1, cs1) = anticheat_run en m s es1; (s2, cs2) = anticheat_run en m s1 es2
      in (s2, cs1 @ cs2))"
  by (induction es1 arbitrary: s) (auto simp: split_beta Let_def)

lemma ac_run_inv: "ac_inv m s \<Longrightarrow> ac_inv m (fst (anticheat_run True m s es))"
  by (induction es arbitrary: s) (auto simp: split_beta Let_def ac_step_inv)

lemma ac_run_mono:
  "ac_inv m s \<Longrightarrow> warningCount s \<le> warningCount (fst (anticheat_run True m s es))"
proof (induction es arbitrary: s)
  case Nil
  then show ?case by simp
next
  case (Cons e es)
  have "warningCount s \<le> warningCount (fst (anticheat_step True m s e))"
    using Cons.prems by (rule ac_step_mono)
  also have "\<dots> \<le> warningCount (fst (anticheat_run True m (fst (anticheat_step True m s e)) es))"
    using Cons.prems by (intro Cons.IH ac_step_inv)
  finally show ?case by (simp add: split_beta Let_def)
qed

lemma ac_run_count:
  "ac_inv m s \<Longrightarrow>
   count_list (snd (anticheat_run True m s es)) OnMaxWarningsReached =
     (if warningCount s < m \<and> warningCount (fst (anticheat_run True m s es)) = m then 1 else 0)"
proof (induction es arbitrary: s)
  case Nil
  then show ?case by simp
next
  case (Cons e es)
  let ?s1 = "fst (anticheat_step True m s e)"
  have i1: "ac_inv m ?s1" using Cons.prems by (rule ac_step_inv)
  have m1: "warningCount s \<le> warningCount ?s1" using Cons.prems by (rule ac_step_mono)
  have m2: "warningCount ?s1 \<le> warningCount (fst (anticheat_run True m ?s1 es))"
    using i1 by (rule ac_run_mono)
  have le: "warningCount (fst (anticheat_run True m ?s1 es)) \<le> m"
    using ac_run_inv [OF i1, of es] by (simp add: ac_inv_def)
  have f: "OnMaxWarningsReached \<in> set (snd (anticheat_step True m s e)) \<longleftrightarrow>
     warningCount s < m \<and> warningCount ?s1 = m"
    using Cons.prems by (rule ac_step_fired)
  show ?case
    using Cons.IH [OF i1] m1 m2 le f
    by (simp add: split_beta Let_def ac_step_count) 
qed


lemma ac_step_count_loss:
  assumes "ac_inv m s" and "warningCount s < m"
  shows "warningCount (fst (anticheat_step True m s e)) =
           warningCount s + (if is_loss e \<and> capturedCount s = warningCount s then 1 else 0)"
    and "capturedCount (fst (anticheat_step True m s e)) = warningCount (fst (anticheat_step True m s e))
           \<longleftrightarrow> e = Rerender \<or> (\<not> is_loss e \<and> capturedCount s = warningCount s)"
  using assms
  by (cases e; auto simp: ac_inv_def handleVisibilityChange_def handleBlur_def Let_def)+

lemma ac_run_reached:
  assumes "ac_inv m s" and "warningCount s = m"
  shows "warningCount (fst (anticheat_run True m s es)) = m"
proof -
  have "warningCount s \<le> warningCount (fst (anticheat_run True m s es))"
    using assms(1) by (rule ac_run_mono)
  moreover have "warningCount (fst (anticheat_run True m s es)) \<le> m"
    using ac_run_inv [OF assms(1), of es] by (simp add: ac_inv_def)
  ultimately show ?thesis using assms(2) by simp
qed

lemma ac_run_episodes:
  assumes "ac_inv m s"
  shows "warningCount (fst (anticheat_run True m s es)) =
           min (warningCount s + int (episodes (capturedCount s = warningCount s) es)) m"
  using assms
proof (induction es arbitrary: s)
  case Nil
  then show ?case by (simp add: ac_inv_def)
next
  case (Cons e es)
  let ?s1 = "fst (anticheat_step True m s e)"
  have i1: "ac_inv m ?s1" using Cons.prems by (rule ac_step_inv)
  have r: "fst (anticheat_run True m s (e # es)) = fst (anticheat_run True m ?s1 es)"
    by (simp add: split_beta Let_def)
  show ?case
  proof (cases "warningCount s = m")
    case True
    then show ?thesis
      using ac_run_reached [OF Cons.prems True, of "e # es"] by simp
  next
    case False
    then have lt: "warningCount s < m" using Cons.prems by (simp add: ac_inv_def)
    show ?thesis
      unfolding r Cons.IH [OF i1]
      using ac_step_count_loss [OF Cons.prems lt, of e]
      by (cases e) auto
  qed
qed

lemma episodes_le_losses: "episodes fresh es \<le> losses es"
proof (induction es arbitrary: fresh)
  case Nil
  then show ?case by (simp add: losses_def)
next
  case (Cons e es)
  have "episodes True es \<le> losses es" and "episodes False es \<le> losses es"
    and "episodes fresh es \<le> losses es"
    by (rule Cons.IH)+
  then show ?case
    by (auto simp: losses_def)
qed

lemma episodes_rerendered: "episodes True (rerendered es) = losses es"
  by (induction es) (auto simp: losses_def rerendered_def)


text \<open>
  Claim C2. For the enabled detector with a threshold \<open>maxWarnings\<close> of at least one and every
  sequence of events: the warning count never decreases; an event invokes the max-warnings
  callback exactly when the count was below the threshold before it and equals the threshold
  after it; over the whole sequence the callback is invoked once if the count has reached the
  threshold and not at all otherwise; the count never passes the threshold, and once it has
  reached the threshold it stays there. The count is the number of losses of focus that
  arrived at fresh handlers, capped at the threshold: when the page renders after every
  event it is the number of losses capped at the threshold, and the callback is invoked
  (once) exactly when at least \<open>maxWarnings\<close> losses have occurred; in no case is it invoked
  before \<open>maxWarnings\<close> losses.
\<close>

theorem anticheat_fires_once_at_threshold:
  assumes "1 \<le> maxWarnings"
  shows "count_after maxWarnings es1 \<le> count_after maxWarnings (es1 @ es2)
       \<and> (OnMaxWarningsReached \<in> set (calls_at maxWarnings es1 e) \<longleftrightarrow>
            count_after maxWarnings es1 < maxWarnings \<and>
            count_after maxWarnings (es1 @ [e]) = maxWarnings)
       \<and> count_list (calls_during maxWarnings es) OnMaxWarningsReached =
            (if count_after maxWarnings es = maxWarnings then 1 else 0)
       \<and> count_after maxWarnings es \<le> maxWarnings
       \<and> (count_after maxWarnings es1 = maxWarnings \<longrightarrow>
            count_after maxWarnings (es1 @ es2) = maxWarnings)
       \<and> count_after maxWarnings es = min (int (episodes True es)) maxWarnings
       \<and> count_after maxWarnings (rerendered es) = min (int (losses es)) maxWarnings
       \<and> count_list (calls_during maxWarnings es) OnMaxWarningsReached =
            (if maxWarnings \<le> int (episodes True es) then 1 else 0)
       \<and> count_list (calls_during maxWarnings (rerendered es)) OnMaxWarningsReached =
            (if maxWarnings \<le> int (losses es) then 1 else 0)
       \<and> (OnMaxWarningsReached \<in> set (calls_during maxWarnings es) \<longrightarrow>
            maxWarnings \<le> int (losses es))"
proof -
  let ?run = "anticheat_run True maxWarnings anticheat_init"
  have i0: "ac_inv maxWarnings anticheat_init"
    using assms by (rule ac_inv_init)
  have i1: "ac_inv maxWarnings (fst (?run xs))" for xs
    using i0 by (rule ac_run_inv)
  have app: "fst (?run (xs @ ys)) = fst (anticheat_run True maxWarnings (fst (?run xs)) ys)" for xs ys
    by (simp add: ac_run_append split_beta)
  have mono: "count_after maxWarnings es1 \<le> count_after maxWarnings (es1 @ es2)"
    unfolding count_after_def app using i1 by (rule ac_run_mono)
  have le: "count_after maxWarnings xs \<le> maxWarnings" for xs
    using i1 [of xs] by (simp add: count_after_def ac_inv_def)
  have fired: "OnMaxWarningsReached \<in> set (calls_at maxWarnings es1 e) \<longleftrightarrow>
            count_after maxWarnings es1 < maxWarnings \<and>
            count_after maxWarnings (es1 @ [e]) = maxWarnings"
    unfolding count_after_def calls_at_def app
    using ac_step_fired [OF i1, of es1 e] by (simp add: split_beta)
  have zero: "warningCount anticheat_init < maxWarnings"
    using assms by (simp add: anticheat_init_def)
  have cnt: "count_list (calls_during maxWarnings xs) OnMaxWarningsReached =
            (if count_after maxWarnings xs = maxWarnings then 1 else 0)" for xs
    unfolding count_after_def calls_during_def
    using ac_run_count [OF i0, of xs] zero by simp
  have stay: "count_after maxWarnings es1 = maxWarnings \<longrightarrow>
            count_after maxWarnings (es1 @ es2) = maxWarnings"
    using mono le [of "es1 @ es2"] by simp
  have ep: "count_after maxWarnings xs = min (int (episodes True xs)) maxWarnings" for xs
    unfolding count_after_def
    using ac_run_episodes [OF i0, of xs] by (simp add: anticheat_init_def)
  have rr: "count_after maxWarnings (rerendered es) = min (int (losses es)) maxWarnings"
    by (simp add: ep episodes_rerendered)
  have cnt_ep: "count_list (calls_during maxWarnings xs) OnMaxWarningsReached =
            (if maxWarnings \<le> int (episodes True xs) then 1 else 0)" for xs
    unfolding cnt ep by auto
  have cnt_rr: "count_list (calls_during maxWarnings (rerendered es)) OnMaxWarningsReached =
            (if maxWarnings \<le> int (losses es) then 1 else 0)"
    by (simp add: cnt_ep episodes_rerendered)
  have "maxWarnings \<le> int (losses es)"
    if "OnMaxWarningsReached \<in> set (calls_during maxWarnings es)"
  proof -
    from that have "count_list (calls_during maxWarnings es) OnMaxWarningsReached \<noteq> 0"
      by (simp add: count_list_0_iff)
    then have "maxWarnings \<le> int (episodes True es)"
      by (simp add: cnt_ep split: if_splits)
    then show ?thesis
      using episodes_le_losses [of True es] by simp
  qed
  then show ?thesis
    using mono fired cnt [of es] le [of es] stay ep [of es] rr cnt_ep [of es] cnt_rr by blast
qed

theorem anticheat_fires_once_at_threshold_witness:
  "(1::int) \<le> 2
   \<and> count_after 2 [Blur, Rerender, VisibilityChange True, Rerender, Blur] = 2
   \<and> count_list (calls_during 2 [Blur, Rerender, VisibilityChange True, Rerender, Blur])
        OnMaxWarningsReached = 1
   \<and> OnMaxWarningsReached \<in> set (calls_at 2 [Blur, Rerender] (VisibilityChange True))
   \<and> count_after 2 [Blur, Rerender] < 2
   \<and> episodes True [Blur, Rerender, VisibilityChange True, Rerender, Blur] = 3
   \<and> losses [Blur, VisibilityChange True, Blur] = 3
   \<and> count_after 2 (rerendered [Blur, VisibilityChange True, Blur]) = 2
   \<and> count_after 2 [Blur, VisibilityChange True] = 1"
proof -
  have h: "(1::int) \<le> 2" by simp
  have c1: "count_after 2 [Blur, Rerender] = 1"
    by (simp add: count_after_def anticheat_init_def handleBlur_def handleVisibilityChange_def)
  have c2: "count_after 2 ([Blur, Rerender] @ [VisibilityChange True]) = 2"
    by (simp add: count_after_def anticheat_init_def handleBlur_def handleVisibilityChange_def)
  have e1: "episodes True [Blur, Rerender, VisibilityChange True, Rerender, Blur] = 3"
    and e2: "losses [Blur, VisibilityChange True, Blur] = 3"
    and e3: "episodes True [Blur, VisibilityChange True] = 1"
    by (simp_all add: losses_def)
  from anticheat_fires_once_at_threshold [OF h,
      of "[Blur, Rerender]" "[]" "VisibilityChange True"
         "[Blur, Rerender, VisibilityChange True, Rerender, Blur]"]
    anticheat_fires_once_at_threshold [OF h,
      of "[Blur, Rerender]" "[]" "VisibilityChange True" "[Blur, VisibilityChange True, Blur]"]
    anticheat_fires_once_at_threshold [OF h,
      of "[Blur, Rerender]" "[]" "VisibilityChange True" "[Blur, VisibilityChange True]"]
    c1 c2 e1 e2 e3
  show ?thesis by simp
qed

section \<open>Properties of submitting\<close>

lemma autoSave_sessions:
  "exam_sessions (fst (autoSaveAnswers now oc (db, c))) = exam_sessions db"
  by (simp add: autoSaveAnswers_def split_beta Let_def split: option.splits)

lemma autoSave_page:
  "session (snd (autoSaveAnswers now oc (db, c))) = session c"
  "location (snd (autoSaveAnswers now oc (db, c))) = location c"
  "submitting (snd (autoSaveAnswers now oc (db, c))) = submitting c"
  by (simp_all add: autoSaveAnswers_def split_beta Let_def split: option.splits)

lemma find_map_update:
  assumes "\<And>x. s_id (f x) = s_id x"
  shows "find (\<lambda>r. s_id r = sid) (map (\<lambda>r. if s_id r = sid then f r else r) rows) =
         map_option f (find (\<lambda>r. s_id r = sid) rows)"
  by (induction rows) (auto simp: assms)

lemma session_row_update:
  "(\<And>x. s_id (f x) = s_id x) \<Longrightarrow>
   session_row sid (update_session sid f db) = map_option f (session_row sid db)"
  by (simp add: session_row_def update_session_def find_map_update)

lemma submitExam_stored_row:
  assumes "session c = Some s"
  shows "session_row (s_id s) (fst (submitExam a t oc Stored (db, c))) =
           map_option (\<lambda>r. r\<lparr>status := (if a then auto_submitted else submitted),
                                submitted_at := Some t, is_locked := True\<rparr>)
             (session_row (s_id s) db)"
    and "session (snd (submitExam a t oc Stored (db, c))) = Some s"
  using assms
   apply (simp_all add: submitExam_def split_beta Let_def session_row_update autoSave_page)
  apply (simp add: session_row_def autoSave_sessions)
  done

lemma submitExam_error_result:
  assumes "session c = Some s"
  shows "exam_sessions (fst (submitExam a t oc ErrorResult (db, c))) = exam_sessions db"
    and "location (snd (submitExam a t oc ErrorResult (db, c))) = ''/''"
    and "submitting (snd (submitExam a t oc ErrorResult (db, c)))"
  using assms
  by (simp_all add: submitExam_def split_beta Let_def autoSave_page autoSave_sessions)

lemma submitExam_rejected:
  assumes "session c = Some s"
  shows "exam_sessions (fst (submitExam a t oc Rejected (db, c))) = exam_sessions db"
    and "location (snd (submitExam a t oc Rejected (db, c))) = location c"
    and "\<not> submitting (snd (submitExam a t oc Rejected (db, c)))"
  using assms
  by (simp_all add: submitExam_def split_beta Let_def autoSave_page autoSave_sessions)

text \<open>
  Claim C1, as amended. For a page that holds a session whose row is in the store, a call of
  submit (manual or forced) whose writes succeed leaves the row locked, with
  \<open>submitted_at\<close> set to the time of the call and the status of the call. submit does not
  look at the current status: a second call writes the row again, so after two calls the
  row carries the status and the time of the second call, and the second call leaves the row
  as it was exactly when it has the kind and the time of the first.
\<close>

theorem submit_twice_last_write_wins:
  assumes "session c = Some s" and "session_row (s_id s) db = Some r"
  shows "session_row (s_id s) (fst (submitExam a1 t1 o1 Stored (db, c))) =
           Some (r\<lparr>status := (if a1 then auto_submitted else submitted),
                    submitted_at := Some t1, is_locked := True\<rparr>)
       \<and> session_row (s_id s)
           (fst (submitExam a2 t2 o2 Stored (submitExam a1 t1 o1 Stored (db, c)))) =
           Some (r\<lparr>status := (if a2 then auto_submitted else submitted),
                    submitted_at := Some t2, is_locked := True\<rparr>)
       \<and> (session_row (s_id s)
            (fst (submitExam a2 t2 o2 Stored (submitExam a1 t1 o1 Stored (db, c)))) =
          session_row (s_id s) (fst (submitExam a1 t1 o1 Stored (db, c)))
          \<longleftrightarrow> a1 = a2 \<and> t1 = t2)"
proof -
  obtain db1 c1 where st1: "submitExam a1 t1 o1 Stored (db, c) = (db1, c1)"
    by (cases "submitExam a1 t1 o1 Stored (db, c)")
  have c1: "session c1 = Some s"
    using submitExam_stored_row(2) [OF assms(1), of a1 t1 o1 db] by (simp add: st1)
  have r1: "session_row (s_id s) db1 =
      Some (r\<lparr>status := (if a1 then auto_submitted else submitted),
               submitted_at := Some t1, is_locked := True\<rparr>)"
    using submitExam_stored_row(1) [OF assms(1), of a1 t1 o1 db] by (simp add: st1 assms(2))
  have r2: "session_row (s_id s) (fst (submitExam a2 t2 o2 Stored (db1, c1))) =
      Some (r\<lparr>status := (if a2 then auto_submitted else submitted),
               submitted_at := Some t2, is_locked := True\<rparr>)"
    by (simp add: submitExam_stored_row(1) [OF c1] r1)
  have "(r\<lparr>status := (if a2 then auto_submitted else submitted),
               submitted_at := Some t2, is_locked := True\<rparr> =
         r\<lparr>status := (if a1 then auto_submitted else submitted),
               submitted_at := Some t1, is_locked := True\<rparr>) \<longleftrightarrow> a1 = a2 \<and> t1 = t2"
    by (cases r) auto
  then show ?thesis
    by (simp only: st1 fst_conv r1 r2 option.inject)
qed

theorem submit_twice_last_write_wins_witness:
  "session example_page = Some example_session
   \<and> session_row (s_id example_session) example_db = Some example_session
   \<and> session_row (s_id example_session)
       (fst (submitExam True 2000 all_stored Stored
              (submitExam False 1000 all_stored Stored (example_db, example_page)))) =
       Some (example_session\<lparr>status := auto_submitted, submitted_at := Some 2000,
                             is_locked := True\<rparr>)"
proof -
  have h1: "session example_page = Some example_session"
    by (simp add: example_page_def)
  have h2: "session_row (s_id example_session) example_db = Some example_session"
    by (simp add: session_row_def example_db_def)
  from submit_twice_last_write_wins [OF h1 h2, of False 1000 all_stored True 2000 all_stored] h1 h2
  show ?thesis by simp
qed

text \<open>
  A manual submit at time 1000 followed by a forced one at time 2000: the second call
  changes the stored status from \<open>submitted\<close> to \<open>auto_submitted\<close> and the stored
  submission time from 1000 to 2000, so it is not a no-op.
\<close>

theorem submit_twice_counterexample:
  "map status (exam_sessions (fst (submitExam False 1000 all_stored Stored
                                    (example_db, example_page)))) = [submitted]
   \<and> map submitted_at (exam_sessions (fst (submitExam False 1000 all_stored Stored
                                    (example_db, example_page)))) = [Some 1000]
   \<and> map status (exam_sessions (fst (submitExam True 2000 all_stored Stored
            (submitExam False 1000 all_stored Stored (example_db, example_page))))) =
       [auto_submitted]
   \<and> map submitted_at (exam_sessions (fst (submitExam True 2000 all_stored Stored
            (submitExam False 1000 all_stored Stored (example_db, example_page))))) =
       [Some 2000]
   \<and> exam_sessions (fst (submitExam True 2000 all_stored Stored
            (submitExam False 1000 all_stored Stored (example_db, example_page)))) \<noteq>
     exam_sessions (fst (submitExam False 1000 all_stored Stored (example_db, example_page)))"
  by (simp add: submitExam_def autoSaveAnswers_def update_session_def example_db_def
      example_page_def example_session_def all_stored_def)

text \<open>
  Claim C5, on the code. The update that locks the session resolves with an error and
  writes nothing: the page is sent to \<open>/\<close> as after a successful submit, the submit action
  stays disabled and nothing is reported, while the stored session is still in progress and
  unlocked. (Only a rejected request reaches the handler that re-enables the action, see
  \<open>submitExam_rejected\<close>.)
\<close>

theorem submit_lock_error_navigates_away:
  "location (snd (submitExam False 1000 all_stored ErrorResult (example_db, example_page))) = ''/''
   \<and> submitting (snd (submitExam False 1000 all_stored ErrorResult (example_db, example_page)))
   \<and> console_errors (snd (submitExam False 1000 all_stored ErrorResult
                             (example_db, example_page))) = []
   \<and> map status (exam_sessions (fst (submitExam False 1000 all_stored ErrorResult
                                     (example_db, example_page)))) = [in_progress]
   \<and> map is_locked (exam_sessions (fst (submitExam False 1000 all_stored ErrorResult
                                     (example_db, example_page)))) = [False]"
  by (simp add: submitExam_def autoSaveAnswers_def update_session_def example_db_def
      example_page_def example_session_def all_stored_def)

section \<open>Properties of entering an exam\<close>

lemma update_session_inv:
  assumes "\<forall>r \<in> set (exam_sessions db). session_inv r"
    and "\<And>r. session_inv r \<Longrightarrow> session_inv (f r)"
  shows "\<forall>r \<in> set (exam_sessions (update_session sid f db)). session_inv r"
  using assms by (auto simp: update_session_def)

lemma submitExam_keeps_session_inv:
  assumes "\<forall>r \<in> set (exam_sessions db). session_inv r"
  shows "\<forall>r \<in> set (exam_sessions (fst (submitExam a t oc lo (db, c)))). session_inv r"
proof (cases "session c")
  case None
  with assms show ?thesis by (simp add: submitExam_def)
next
  case (Some s)
  obtain db1 c1 where sv: "autoSaveAnswers t oc (db, c\<lparr>submitting := True\<rparr>) = (db1, c1)"
    by (cases "autoSaveAnswers t oc (db, c\<lparr>submitting := True\<rparr>)")
  have "exam_sessions db1 = exam_sessions db"
    using autoSave_sessions [of t oc db "c\<lparr>submitting := True\<rparr>"] by (simp add: sv)
  with assms have i1: "\<forall>r \<in> set (exam_sessions db1). session_inv r" by simp
  have "\<forall>r \<in> set (exam_sessions (update_session (s_id s)
           (\<lambda>r. r\<lparr>status := (if a then auto_submitted else submitted),
                   submitted_at := Some t, is_locked := True\<rparr>) db1)). session_inv r"
    using i1 by (rule update_session_inv) (simp add: session_inv_def)
  with i1 show ?thesis
    by (cases lo) (simp_all add: submitExam_def Some sv)
qed

lemma handleMaxWarnings_keeps_session_inv:
  assumes "\<forall>r \<in> set (exam_sessions db). session_inv r"
  shows "\<forall>r \<in> set (exam_sessions (fst (handleMaxWarnings t1 o1 t2 oc lo (db, c)))). session_inv r"
proof (cases "session c")
  case None
  with assms show ?thesis by (simp add: handleMaxWarnings_def)
next
  case (Some s)
  have "\<forall>r \<in> set (exam_sessions (update_session (s_id s)
           (\<lambda>r. r\<lparr>status := auto_submitted, submitted_at := Some t1, is_locked := True\<rparr>) db)).
          session_inv r"
    using assms by (rule update_session_inv) (simp add: session_inv_def)
  with assms show ?thesis
    by (cases o1)
      (simp_all add: handleMaxWarnings_def Some submitExam_of_session_render_def split_beta
        submitExam_keeps_session_inv)
qed

text \<open>
  An automatic submission after the last warning writes no answer: the answers of the page
  that the last autosave did not store stay out of the store.
\<close>

lemma handleMaxWarnings_saves_nothing:
  "student_answers (fst (handleMaxWarnings t1 o1 t2 oc lo (db, c))) = student_answers db"
proof -
  have u: "student_answers (update_session i f d) = student_answers d" for i f d
    by (simp add: update_session_def)
  have s: "student_answers (fst (submitExam True t2 oc lo (d, c\<lparr>answers := []\<rparr>))) =
           student_answers d" for d
    by (cases "session c"; cases lo)
      (simp_all add: submitExam_def autoSaveAnswers_def u split_beta)
  show ?thesis
    by (cases "session c"; cases o1)
      (simp_all add: handleMaxWarnings_def submitExam_of_session_render_def split_beta s u)
qed

lemma handleWarning_keeps_session_inv:
  assumes "\<forall>r \<in> set (exam_sessions db). session_inv r"
  shows "\<forall>r \<in> set (exam_sessions (fst (handleWarning n t oc (db, c)))). session_inv r"
proof (cases "session c")
  case None
  with assms show ?thesis by (simp add: handleWarning_def)
next
  case (Some s)
  have "\<forall>r \<in> set (exam_sessions (update_session (s_id s)
           (\<lambda>r. r\<lparr>warning_count := n, last_warning_at := Some t\<rparr>) db)). session_inv r"
    using assms by (rule update_session_inv) (simp add: session_inv_def)
  with assms show ?thesis
    by (cases oc) (simp_all add: handleWarning_def Some)
qed

lemma loadExam_keeps_session_inv:
  assumes "\<forall>r \<in> set (exam_sessions db). session_inv r"
  shows "\<forall>r \<in> set (exam_sessions (fst (snd (loadExam e u ee n t io qe (db, c))))). session_inv r"
  using assms
  by (auto simp: loadExam_def enter_session_def new_session_def session_inv_def Let_def
      split: option.splits request_outcome.splits)



section \<open>Properties of saving and reloading answers\<close>

lemma or_null_idem: "or_null (or_null x) = or_null x"
  by (simp add: or_null_def split: option.splits)

lemma map_of_fold_update:
  "map_of (fold (\<lambda>r m. AList.update (fst (g r)) (snd (g r)) m) rs m0) =
   map_of m0 ++ map_of (rev (map g rs))"
proof (induction rs arbitrary: m0)
  case Nil
  then show ?case by simp
next
  case (Cons r rs)
  show ?case
    by (rule ext) (simp add: Cons.IH update_conv' map_add_def split: option.splits)
qed

lemma load_answers_view: "map_of (load_answers sid rows) = stored_view sid rows"
proof -
  have "load_answers sid rows =
      fold (\<lambda>r m. AList.update (fst (row_entry r)) (snd (row_entry r)) m)
        (filter (\<lambda>r. sa_session_id r = sid) rows) []"
    by (simp add: load_answers_def row_entry_def)
  then show ?thesis
    by (simp add: map_of_fold_update stored_view_def)
qed

lemma map_of_rev_distinct: "distinct (map fst ps) \<Longrightarrow> map_of (rev ps) = map_of ps"
  by (subst map_of_inject_set) (simp_all add: rev_map [symmetric])

lemma dom_stored_view:
  "dom (stored_view sid rows) = sa_question_id ` {r \<in> set rows. sa_session_id r = sid}"
  by (force simp: stored_view_def dom_map_of_conv_image_fst row_entry_def)

lemma stored_view_upsert:
  "stored_view sid (upsert_answer sid q txt sel now rows) =
     [q \<mapsto> \<lparr>question_id = q, answer_text = or_null txt, selected_option_id = or_null sel\<rparr>]
       ++ stored_view sid rows"
proof (cases "list_ex (\<lambda>r. sa_session_id r = sid \<and> sa_question_id r = q) rows")
  case False
  then have "q \<notin> dom (stored_view sid rows)"
    by (auto simp: dom_stored_view list_ex_iff)
  then have "stored_view sid rows q = None" by blast
  with False show ?thesis
    by (auto simp: upsert_answer_def stored_view_def row_entry_def map_add_def
        split: option.splits intro!: ext)
next
  case True
  then have "q \<in> dom (stored_view sid rows)"
    by (auto simp: dom_stored_view list_ex_iff)
  then obtain v where "stored_view sid rows q = Some v" by blast
  with True show ?thesis
    by (auto simp: upsert_answer_def map_add_def split: option.splits intro!: ext)
qed

lemma save_entries_view:
  "\<forall>k \<in> fst ` set entries. outcome k = Stored \<Longrightarrow>
   snd (save_entries sid now outcome entries rows) \<and>
   stored_view sid (fst (save_entries sid now outcome entries rows)) =
     map_of (map (\<lambda>(k, a). (k, saved_form k a)) entries) ++ stored_view sid rows"
proof (induction entries arbitrary: rows)
  case Nil
  then show ?case by simp
next
  case (Cons e entries)
  obtain k a where e: "e = (k, a)" by (cases e)
  have st: "outcome k = Stored" using Cons.prems by (simp add: e)
  have rest: "\<forall>k \<in> fst ` set entries. outcome k = Stored" using Cons.prems by simp
  show ?case
    using Cons.IH [OF rest]
    by (auto simp: e st stored_view_upsert saved_form_def or_null_idem map_add_def
        split: option.splits intro!: ext)
qed

lemma saved_form_id:
  "question_id a = k \<Longrightarrow> carries_one a \<Longrightarrow> saved_form k a = a"
  by (cases a) (auto simp: saved_form_def carries_one_def or_null_def split: option.splits if_splits)

text \<open>
  The answers read back after an autosave whose requests all reach the store: the answers
  that were stored before, and the saved form of the answers of the page for the questions
  that had no stored answer. A stored answer is never replaced.
\<close>

lemma autosave_reload_general:
  assumes "session c = Some s"
    and "\<forall>k \<in> fst ` set (answers c). outcome k = Stored"
  shows "map_of (load_answers (s_id s)
                  (student_answers (fst (autoSaveAnswers now outcome (db, c))))) =
         map_of (map (\<lambda>(k, a). (k, saved_form k a)) (answers c)) ++
         stored_view (s_id s) (student_answers db)"
  using save_entries_view [OF assms(2), of "s_id s" now "student_answers db"] assms(1)
  by (simp add: autoSaveAnswers_def split_beta Let_def load_answers_view)

text \<open>
  The first autosave of a session: when the store holds no answer of the session and every
  answer of the page is stored under its own question and carries either a text or a
  selected option, reloading gives the mapping of the page.
\<close>

lemma first_autosave_roundtrip:
  assumes "session c = Some s"
    and "\<forall>(k, a) \<in> set (answers c). question_id a = k \<and> carries_one a \<and> outcome k = Stored"
    and "\<forall>r \<in> set (student_answers db). sa_session_id r \<noteq> s_id s"
  shows "map_of (load_answers (s_id s)
                  (student_answers (fst (autoSaveAnswers now outcome (db, c))))) =
         map_of (answers c)"
proof -
  have st: "\<forall>k \<in> fst ` set (answers c). outcome k = Stored"
    using assms(2) by auto
  have same: "map (\<lambda>(k, a). (k, saved_form k a)) (answers c) = answers c"
    using assms(2) by (intro map_idI) (auto simp: saved_form_id)
  have "filter (\<lambda>r. sa_session_id r = s_id s) (student_answers db) = []"
    using assms(3) by (simp add: filter_empty_conv)
  then have e: "stored_view (s_id s) (student_answers db) = Map.empty"
    by (simp add: stored_view_def)
  show ?thesis
    by (simp add: autosave_reload_general [OF assms(1) st] same e)
qed

text \<open>
  Claim C9, on the code. The page holds the text \<open>Paris\<close> for the first question and the
  store holds \<open>Par\<close> for it, saved by an earlier tick. The autosave ends with the status
  \<open>saved\<close> and reports nothing, and reloading the session gives \<open>Par\<close>: the request for the
  first question was an insert that the unique pair of session and question rejects, so the
  answer of the page was not persisted and the reloaded mapping differs from the one of the
  page.
\<close>

theorem changed_answer_not_persisted:
  "map_of example_answers ''q1'' =
     Some \<lparr>question_id = ''q1'', answer_text = Some (utf16 ''Paris''),
           selected_option_id = None\<rparr>
   \<and> autoSaveStatus (snd (autoSaveAnswers 9000 all_stored
        (example_db\<lparr>student_answers := example_rows\<rparr>,
         example_page\<lparr>answers := example_answers\<rparr>))) = saved
   \<and> console_errors (snd (autoSaveAnswers 9000 all_stored
        (example_db\<lparr>student_answers := example_rows\<rparr>,
         example_page\<lparr>answers := example_answers\<rparr>))) = []
   \<and> map_of (load_answers ''s1''
        (student_answers (fst (autoSaveAnswers 9000 all_stored
           (example_db\<lparr>student_answers := example_rows\<rparr>,
            example_page\<lparr>answers := example_answers\<rparr>))))) ''q1'' =
      Some \<lparr>question_id = ''q1'', answer_text = Some (utf16 ''Par''),
            selected_option_id = None\<rparr>
   \<and> map_of (load_answers ''s1''
        (student_answers (fst (autoSaveAnswers 9000 all_stored
           (example_db\<lparr>student_answers := example_rows\<rparr>,
            example_page\<lparr>answers := example_answers\<rparr>))))) \<noteq>
      map_of example_answers"
proof -
  let ?loaded = "map_of (load_answers ''s1''
        (student_answers (fst (autoSaveAnswers 9000 all_stored
           (example_db\<lparr>student_answers := example_rows\<rparr>,
            example_page\<lparr>answers := example_answers\<rparr>)))))"
  have a: "map_of example_answers ''q1'' =
     Some \<lparr>question_id = ''q1'', answer_text = Some (utf16 ''Paris''),
           selected_option_id = None\<rparr>"
    by (simp add: example_answers_def)
  have b: "?loaded ''q1'' =
      Some \<lparr>question_id = ''q1'', answer_text = Some (utf16 ''Par''),
            selected_option_id = None\<rparr>"
    by (simp add: autoSaveAnswers_def example_db_def example_page_def example_session_def
        example_answers_def example_rows_def all_stored_def upsert_answer_def load_answers_def
        or_null_def utf16_def)
  have c: "autoSaveStatus (snd (autoSaveAnswers 9000 all_stored
        (example_db\<lparr>student_answers := example_rows\<rparr>,
         example_page\<lparr>answers := example_answers\<rparr>))) = saved"
    "console_errors (snd (autoSaveAnswers 9000 all_stored
        (example_db\<lparr>student_answers := example_rows\<rparr>,
         example_page\<lparr>answers := example_answers\<rparr>))) = []"
    by (simp_all add: autoSaveAnswers_def example_db_def example_page_def example_session_def
        example_answers_def example_rows_def all_stored_def upsert_answer_def split_beta)
  have "utf16 ''Par'' \<noteq> utf16 ''Paris''"
    by (simp add: utf16_def)
  then have "?loaded ''q1'' \<noteq> map_of example_answers ''q1''"
    by (simp add: a b)
  then have "?loaded \<noteq> map_of example_answers"
    by metis
  with a b c show ?thesis by blast
qed

text \<open>
  An answer whose text is the empty string (typed and deleted again) comes back without a
  text, also on the first autosave.
\<close>

lemma empty_text_read_back_absent:
  "map_of (load_answers ''s1''
     (student_answers (fst (autoSaveAnswers 9000 all_stored
        (example_db,
         example_page\<lparr>answers :=
           [(''q1'', \<lparr>question_id = ''q1'', answer_text = Some [],
                     selected_option_id = None\<rparr>)]\<rparr>))))) ''q1'' =
   Some \<lparr>question_id = ''q1'', answer_text = None, selected_option_id = None\<rparr>"
  by (simp add: autoSaveAnswers_def example_db_def example_page_def example_session_def
      all_stored_def upsert_answer_def load_answers_def or_null_def)

section \<open>Properties of automatic grading\<close>

lemma find_distinct_id:
  "distinct (map q_id qs) \<Longrightarrow> q \<in> set qs \<Longrightarrow> find (\<lambda>x. q_id x = q_id q) qs = Some q"
  by (induction qs) force+

lemma map_of_fold_update_distinct:
  assumes "distinct (map q_id qs)" and "q \<in> set qs"
  shows "map_of (fold (\<lambda>q m. AList.update (q_id q) (v q) m) qs gs) (q_id q) = Some (v q)"
proof -
  let ?g = "\<lambda>q. (q_id q, v q)"
  have d: "distinct (map fst (map ?g qs))"
    using assms(1) by (simp add: comp_def)
  have "map_of (fold (\<lambda>q m. AList.update (fst (?g q)) (snd (?g q)) m) qs gs) =
          map_of gs ++ map_of (rev (map ?g qs))"
    by (rule map_of_fold_update)
  moreover have "map_of (rev (map ?g qs)) = map_of (map ?g qs)"
    using d by (rule map_of_rev_distinct)
  moreover have "map_of (map ?g qs) (q_id q) = Some (v q)"
    using d assms(2) by (intro map_of_is_SomeI) auto
  ultimately show ?thesis by simp
qed

lemma handleAutoGrade_lookup:
  "distinct (map q_id qs) \<Longrightarrow> q \<in> set qs \<Longrightarrow>
   map_of (handleAutoGrade lower qs sas gs) (q_id q) = Some (Num (autoGrade lower sas q))"
  unfolding handleAutoGrade_def by (rule map_of_fold_update_distinct)

lemma initialGrades_lookup:
  "distinct (map q_id qs) \<Longrightarrow> q \<in> set qs \<Longrightarrow>
   map_of (initialGrades qs sas) (q_id q) = Some (Num (initialGrade sas q))"
  unfolding initialGrades_def by (rule map_of_fold_update_distinct)

lemma answer_of_question: "answer_of sas q = Some a \<Longrightarrow> sa_question_id a = q_id q"
  by (auto simp: answer_of_def find_Some_iff)

lemma autoGrade_selected:
  assumes "question_type q = mcq \<or> question_type q = true_false"
    and "answer_of sas q = Some a" and "sa_selected_option_id a = Some sel" and "sel \<noteq> []"
    and "question_options q = Some opts" and "find (\<lambda>opt. o_id opt = sel) opts = Some opt"
  shows "autoGrade lower sas q = (if is_correct opt then points q else 0)"
  using assms by (auto simp: autoGrade_def Let_def or_null_def selectedOptionPoints_def)

lemma initialGrade_selected:
  assumes "answer_of sas q = Some a" and "sa_selected_option_id a = Some sel" and "sel \<noteq> []"
    and "question_options q = Some opts" and "find (\<lambda>opt. o_id opt = sel) opts = Some opt"
    and "sa_points_earned a = None"
  shows "initialGrade sas q = (if is_correct opt then points q else 0)"
  using assms by (auto simp: initialGrade_def Let_def or_null_def selectedOptionPoints_def)

lemma no_answer_grade:
  assumes "answer_of sas q = None"
  shows "autoGrade lower sas q = 0" and "initialGrade sas q = 0"
  using assms by (simp_all add: autoGrade_def initialGrade_def Let_def or_null_def)

lemma trim_Nil: "trim [] = []"
  by (simp add: trim_def)

lemma autoGrade_text:
  assumes "question_type q = short_answer \<or> question_type q = long_answer"
    and "correct_answer q = Some m" and "m \<noteq> []"
  shows "autoGrade lower sas q =
     (if (\<exists>a t. answer_of sas q = Some a \<and> sa_answer_text a = Some t \<and> trim t \<noteq> [] \<and>
            lower (trim t) = lower (trim m))
      then points q else 0)"
proof (cases "answer_of sas q")
  case None
  then show ?thesis by (simp add: no_answer_grade)
next
  case (Some a)
  show ?thesis
  proof (cases "sa_answer_text a")
    case None
    with Some assms(1) show ?thesis
      by (auto simp: autoGrade_def Let_def or_null_def)
  next
    case t: (Some t)
    show ?thesis
    proof (cases "trim t = []")
      case True
      with Some t assms(1) show ?thesis
        by (auto simp: autoGrade_def Let_def or_null_def)
    next
      case False
      then have "t \<noteq> []" by (auto simp: trim_Nil)
      with Some t False assms show ?thesis
        by (auto simp: autoGrade_def Let_def or_null_def)
    qed
  qed
qed

lemma autoGrade_text_no_model:
  assumes "question_type q = short_answer \<or> question_type q = long_answer"
    and "or_null (correct_answer q) = None"
  shows "autoGrade lower sas q = 0"
  using assms by (auto simp: autoGrade_def Let_def)

lemma submitted_is_correct_selected:
  assumes "distinct (map q_id qs)" and "q \<in> set qs"
    and "answer_of sas q = Some a" and "sa_selected_option_id a = Some sel" and "sel \<noteq> []"
    and "question_options q = Some opts" and "find (\<lambda>opt. o_id opt = sel) opts = Some opt"
  shows "submitted_is_correct qs a = Some (is_correct opt)"
  using assms find_distinct_id [OF assms(1,2)] answer_of_question [OF assms(3)]
  by (simp add: submitted_is_correct_def or_null_def)

text \<open>
  Claim C6. Among questions with distinct ids: for an mcq or true_false question whose
  answer selects one of its options, the answer is stored as correct exactly when that
  option is marked correct, and the automatic grade (of \<^verbatim>\<open>handleAutoGrade\<close>, and of the
  initial grades when the answer has no stored points) is the points of the question when
  the option is correct and 0 otherwise; for any question without an answer the grade is 0.
\<close>

theorem objective_question_grading:
  assumes "distinct (map q_id qs)" and "q \<in> set qs"
  shows "((question_type q = mcq \<or> question_type q = true_false)
          \<and> answer_of sas q = Some a \<and> sa_selected_option_id a = Some sel \<and> sel \<noteq> []
          \<and> question_options q = Some opts \<and> find (\<lambda>opt. o_id opt = sel) opts = Some opt \<longrightarrow>
            submitted_is_correct qs a = Some (is_correct opt)
          \<and> map_of (handleAutoGrade lower qs sas gs) (q_id q) =
              Some (Num (if is_correct opt then points q else 0))
          \<and> (sa_points_earned a = None \<longrightarrow>
              map_of (initialGrades qs sas) (q_id q) =
                Some (Num (if is_correct opt then points q else 0))))
       \<and> (answer_of sas q = None \<longrightarrow>
            map_of (handleAutoGrade lower qs sas gs) (q_id q) = Some (Num 0)
          \<and> map_of (initialGrades qs sas) (q_id q) = Some (Num 0))"
proof -
  have selected:
    "submitted_is_correct qs a = Some (is_correct opt)
     \<and> map_of (handleAutoGrade lower qs sas gs) (q_id q) =
         Some (Num (if is_correct opt then points q else 0))
     \<and> (sa_points_earned a = None \<longrightarrow>
         map_of (initialGrades qs sas) (q_id q) =
           Some (Num (if is_correct opt then points q else 0)))"
    if h: "(question_type q = mcq \<or> question_type q = true_false)
          \<and> answer_of sas q = Some a \<and> sa_selected_option_id a = Some sel \<and> sel \<noteq> []
          \<and> question_options q = Some opts \<and> find (\<lambda>opt. o_id opt = sel) opts = Some opt"
  proof -
    from h have t: "question_type q = mcq \<or> question_type q = true_false"
      and a: "answer_of sas q = Some a" and s: "sa_selected_option_id a = Some sel"
      and n: "sel \<noteq> []" and os: "question_options q = Some opts"
      and f: "find (\<lambda>opt. o_id opt = sel) opts = Some opt"
      by simp_all
    show ?thesis
      using submitted_is_correct_selected [OF assms a s n os f]
        autoGrade_selected [OF t a s n os f] initialGrade_selected [OF a s n os f]
      by (simp add: handleAutoGrade_lookup [OF assms] initialGrades_lookup [OF assms])
  qed
  have none:
    "map_of (handleAutoGrade lower qs sas gs) (q_id q) = Some (Num 0)
     \<and> map_of (initialGrades qs sas) (q_id q) = Some (Num 0)"
    if "answer_of sas q = None"
    using that
    by (simp add: handleAutoGrade_lookup [OF assms] initialGrades_lookup [OF assms]
        no_answer_grade)
  show ?thesis
    using selected none by blast
qed

theorem objective_question_grading_witness:
  "distinct (map q_id [example_mcq, example_short])
   \<and> example_mcq \<in> set [example_mcq, example_short]
   \<and> question_type example_mcq = mcq
   \<and> answer_of example_student_answers example_mcq = Some (hd example_student_answers)
   \<and> sa_selected_option_id (hd example_student_answers) = Some ''oB''
   \<and> question_options example_mcq =
       Some [\<lparr>o_id = ''oA'', is_correct = False\<rparr>, \<lparr>o_id = ''oB'', is_correct = True\<rparr>]
   \<and> find (\<lambda>opt. o_id opt = ''oB'')
        [\<lparr>o_id = ''oA'', is_correct = False\<rparr>, \<lparr>o_id = ''oB'', is_correct = True\<rparr>] =
       Some \<lparr>o_id = ''oB'', is_correct = True\<rparr>
   \<and> sa_points_earned (hd example_student_answers) = None
   \<and> submitted_is_correct [example_mcq, example_short] (hd example_student_answers) = Some True
   \<and> map_of (handleAutoGrade ascii_lower [example_mcq, example_short] example_student_answers [])
        (q_id example_mcq) = Some (Num 6)
   \<and> map_of (initialGrades [example_mcq, example_short] example_student_answers)
        (q_id example_mcq) = Some (Num 6)
   \<and> answer_of [] example_mcq = None
   \<and> map_of (handleAutoGrade ascii_lower [example_mcq, example_short] [] []) (q_id example_mcq) =
       Some (Num 0)"
proof -
  let ?opts = "[\<lparr>o_id = ''oA'', is_correct = False\<rparr>, \<lparr>o_id = ''oB'', is_correct = True\<rparr>]"
  have h1: "distinct (map q_id [example_mcq, example_short])"
    and h2: "example_mcq \<in> set [example_mcq, example_short]"
    by (simp_all add: example_mcq_def example_short_def)
  have a: "question_type example_mcq = mcq"
    "answer_of example_student_answers example_mcq = Some (hd example_student_answers)"
    "sa_selected_option_id (hd example_student_answers) = Some ''oB''"
    "question_options example_mcq = Some ?opts"
    "find (\<lambda>opt. o_id opt = ''oB'') ?opts = Some \<lparr>o_id = ''oB'', is_correct = True\<rparr>"
    "sa_points_earned (hd example_student_answers) = None"
    "points example_mcq = 6"
    by (simp_all add: example_mcq_def example_student_answers_def answer_of_def)
  have b: "answer_of [] example_mcq = None"
    by (simp add: answer_of_def)
  from objective_question_grading [OF h1 h2, where sas = example_student_answers
         and a = "hd example_student_answers" and sel = "''oB''" and opts = ?opts
         and opt = "\<lparr>o_id = ''oB'', is_correct = True\<rparr>" and lower = ascii_lower and gs = "[]"]
       objective_question_grading [OF h1 h2, where sas = "[]"
         and a = "hd example_student_answers" and sel = "''oB''" and opts = ?opts
         and opt = "\<lparr>o_id = ''oB'', is_correct = True\<rparr>" and lower = ascii_lower and gs = "[]"]
       h1 h2 a b
  show ?thesis by simp
qed

text \<open>
  Claim C7, as amended. Among questions with distinct ids, for a short_answer or long_answer
  question with a model answer (a \<open>correct_answer\<close> that is not the empty string), automatic
  grading gives the points of the question when the student has an answer text that is not
  blank and that equals the model answer after trimming and lower-casing both, and 0
  otherwise. This holds whatever the case mapping \<open>lower\<close> is.
\<close>

theorem text_question_grading:
  assumes "distinct (map q_id qs)" and "q \<in> set qs"
    and "question_type q = short_answer \<or> question_type q = long_answer"
    and "correct_answer q = Some m" and "m \<noteq> []"
  shows "map_of (handleAutoGrade lower qs sas gs) (q_id q) =
     Some (Num (if (\<exists>a t. answer_of sas q = Some a \<and> sa_answer_text a = Some t \<and>
                        trim t \<noteq> [] \<and> lower (trim t) = lower (trim m))
                then points q else 0))"
  using handleAutoGrade_lookup [OF assms(1,2)] autoGrade_text [OF assms(3,4,5)]
  by simp

theorem text_question_grading_witness:
  "distinct (map q_id [example_mcq, example_short])
   \<and> example_short \<in> set [example_mcq, example_short]
   \<and> question_type example_short = short_answer
   \<and> correct_answer example_short = Some (utf16 ''Paris'')
   \<and> utf16 ''Paris'' \<noteq> []
   \<and> trim (utf16 '' paris  '') = utf16 ''paris''
   \<and> ascii_lower (trim (utf16 '' paris  '')) = ascii_lower (trim (utf16 ''Paris''))
   \<and> map_of (handleAutoGrade ascii_lower [example_mcq, example_short] example_student_answers [])
        (q_id example_short) = Some (Num 4)"
proof -
  have h1: "distinct (map q_id [example_mcq, example_short])"
    and h2: "example_short \<in> set [example_mcq, example_short]"
    and h3: "question_type example_short = short_answer \<or> question_type example_short = long_answer"
    and h4: "correct_answer example_short = Some (utf16 ''Paris'')"
    by (simp_all add: example_mcq_def example_short_def)
  have h5: "utf16 ''Paris'' \<noteq> []"
    by (simp add: utf16_def)
  have tr: "trim (utf16 '' paris  '') = utf16 ''paris''"
    by code_simp
  have ne: "trim (utf16 '' paris  '') \<noteq> []"
    by code_simp
  have eq: "ascii_lower (trim (utf16 '' paris  '')) = ascii_lower (trim (utf16 ''Paris''))"
    by code_simp
  have ex: "\<exists>a t. answer_of example_student_answers example_short = Some a \<and>
      sa_answer_text a = Some t \<and> trim t \<noteq> [] \<and>
      ascii_lower (trim t) = ascii_lower (trim (utf16 ''Paris''))"
    using eq ne by (simp add: answer_of_def example_student_answers_def example_short_def)
  have p: "points example_short = 4" "question_type example_short = short_answer"
    by (simp_all add: example_short_def)
  from text_question_grading [OF h1 h2 h3 h4 h5, where lower = ascii_lower
         and sas = example_student_answers and gs = "[]"]
       h1 h2 h4 h5 tr eq ex p
  show ?thesis by simp
qed

text \<open>
  A question whose model answer is a single space, and an answer of two spaces: the two
  texts are equal after trimming (so after any lower-casing as well), the question has 4
  points, and the automatic grade is 0.
\<close>

theorem blank_model_answer_counterexample:
  "question_type blank_question = short_answer
   \<and> correct_answer blank_question = Some (utf16 '' '')
   \<and> answer_of [blank_answer] blank_question = Some blank_answer
   \<and> sa_answer_text blank_answer = Some (utf16 ''  '')
   \<and> trim (utf16 ''  '') = trim (utf16 '' '')
   \<and> ascii_lower (trim (utf16 ''  '')) = ascii_lower (trim (utf16 '' ''))
   \<and> points blank_question = 4
   \<and> map_of (handleAutoGrade ascii_lower [blank_question] [blank_answer] [])
        (q_id blank_question) = Some (Num 0)"
  by code_simp

section \<open>Properties of the rounding to a double\<close>

text \<open>The exponent of a positive number brackets it between two powers of 2.\<close>

lemma pow2_powi: "pow2 e = 2 powi e"
  by (simp add: pow2_def power_int_def power_one_over [symmetric])

lemma pow2_pos: "0 < pow2 e"
  by (simp add: pow2_powi zero_less_power_int)

lemma pow2_add: "pow2 (a + b) = pow2 a * pow2 b"
  by (simp add: pow2_powi power_int_add)

lemma pow2_diff: "pow2 (a - b) = pow2 a / pow2 b"
  by (simp add: pow2_powi power_int_diff)

lemma pow2_mono: "a \<le> b \<Longrightarrow> pow2 a \<le> pow2 b"
  by (simp add: pow2_powi power_int_increasing)

lemma pow2_nat: "0 \<le> e \<Longrightarrow> pow2 e = 2 ^ nat e"
  by (simp add: pow2_def)

lemma pow2_52: "pow2 52 = 2 ^ 52"
  by (simp add: pow2_def)

lemma pow2_53: "pow2 53 = 2 ^ 53"
  by (simp add: pow2_def)

lemma pow2_less_exp: "pow2 a \<le> x \<Longrightarrow> x < pow2 b \<Longrightarrow> a < b"
  using pow2_mono [of b a] by (cases "a < b") auto

lemma exponent_bounds:
  assumes "0 < x"
  shows "pow2 (exponent x) \<le> x \<and> x < pow2 (exponent x + 1)"
proof (cases "1 \<le> x")
  case True
  define n where "n = \<lfloor>x\<rfloor>"
  have n: "0 < n" using True by (simp add: n_def)
  have b: "1 \<le> bitlen n" using n by (simp add: bitlen_ge_iff_power)
  from bitlen_bounds [OF n]
  have lo: "2 ^ nat (bitlen n - 1) \<le> n" and hi: "n < 2 ^ nat (bitlen n)" by simp_all
  have "real_of_int (2 ^ nat (bitlen n - 1)) \<le> of_int n" using lo by linarith
  also have "\<dots> \<le> x" by (simp add: n_def)
  finally have 1: "pow2 (bitlen n - 1) \<le> x" using b by (simp add: pow2_nat)
  have "n + 1 \<le> 2 ^ nat (bitlen n)" using hi by simp
  then have "real_of_int (n + 1) \<le> of_int (2 ^ nat (bitlen n))" by linarith
  moreover have "x < of_int (n + 1)" unfolding n_def by linarith
  ultimately have 2: "x < pow2 (bitlen n)" using b by (simp add: pow2_nat)
  from 1 2 show ?thesis using True by (simp add: exponent_def n_def)
next
  case False
  define m where "m = \<lceil>1 / x\<rceil> - 1"
  have x1: "1 < 1 / x" using False assms by simp
  then have "1 < \<lceil>1 / x\<rceil>" by linarith
  then have m: "0 < m" by (simp add: m_def)
  have b: "1 \<le> bitlen m" using m by (simp add: bitlen_ge_iff_power)
  from bitlen_bounds [OF m]
  have lo: "2 ^ nat (bitlen m - 1) \<le> m" and hi: "m < 2 ^ nat (bitlen m)" by simp_all
  have "1 / x \<le> of_int (m + 1)" unfolding m_def by simp
  also have "\<dots> \<le> of_int (2 ^ nat (bitlen m))" using hi by linarith
  finally have "1 / x \<le> 2 ^ nat (bitlen m)" by simp
  then have "1 \<le> 2 ^ nat (bitlen m) * x" using assms by (simp add: field_simps)
  then have 1: "1 / 2 ^ nat (bitlen m) \<le> x" by (simp add: field_simps)
  have "real_of_int (2 ^ nat (bitlen m - 1)) \<le> of_int m" using lo by linarith
  also have "of_int m < 1 / x" unfolding m_def by linarith
  finally have "2 ^ nat (bitlen m - 1) < 1 / x" by simp
  then have 2: "x < 1 / 2 ^ nat (bitlen m - 1)" using assms by (simp add: field_simps)
  have e: "exponent x = - bitlen m" using False by (simp add: exponent_def m_def)
  have p1: "pow2 (- bitlen m) = 1 / 2 ^ nat (bitlen m)" using b by (simp add: pow2_def)
  have p2: "pow2 (1 - bitlen m) = 1 / 2 ^ nat (bitlen m - 1)"
  proof (cases "bitlen m = 1")
    case True
    then show ?thesis by (simp add: pow2_def)
  next
    case False
    with b have "1 < bitlen m" by simp
    then show ?thesis by (simp add: pow2_def nat_diff_distrib)
  qed
  show ?thesis using 1 2 by (simp add: e p1 p2)
qed

lemma exponent_mono:
  assumes "0 < x" and "x \<le> y"
  shows "exponent x \<le> exponent y"
proof -
  have "pow2 (exponent x) \<le> y" using exponent_bounds [OF assms(1)] assms(2) by simp
  moreover have "y < pow2 (exponent y + 1)" using exponent_bounds [of y] assms by simp
  ultimately have "exponent x < exponent y + 1" by (rule pow2_less_exp)
  then show ?thesis by simp
qed

lemma roundTiesToEven_int: "roundTiesToEven (of_int n) = n"
  by (simp add: roundTiesToEven_def)

lemma roundTiesToEven_floor:
  "\<lfloor>y\<rfloor> \<le> roundTiesToEven y \<and> roundTiesToEven y \<le> \<lfloor>y\<rfloor> + 1"
  by (simp add: roundTiesToEven_def Let_def)

lemma roundTiesToEven_mono:
  assumes "x \<le> y"
  shows "roundTiesToEven x \<le> roundTiesToEven y"
proof (cases "\<lfloor>x\<rfloor> = \<lfloor>y\<rfloor>")
  case True
  then show ?thesis using assms by (auto simp: roundTiesToEven_def Let_def)
next
  case False
  then have "\<lfloor>x\<rfloor> + 1 \<le> \<lfloor>y\<rfloor>" using floor_mono [OF assms] by simp
  then show ?thesis
    using roundTiesToEven_floor [of x] roundTiesToEven_floor [of y] by linarith
qed


lemma round64_pos:
  "0 < x \<Longrightarrow> round64 x = of_int (roundTiesToEven (x / ulp x)) * ulp x"
  by (simp add: round64_def)

lemma round64_minus: "round64 (- x) = - round64 x"
  by (simp add: round64_def ulp_def sgn_minus)

lemma round64_zero: "round64 0 = 0"
  by (simp add: round64_def)

lemma ulp_pos: "0 < ulp x"
  by (simp add: ulp_def pow2_pos)

lemma round64_nonneg: "0 \<le> x \<Longrightarrow> 0 \<le> round64 x"
proof (cases "x = 0")
  case True
  then show ?thesis by (simp add: round64_zero)
next
  case False
  assume "0 \<le> x"
  with False have x: "0 < x" by simp
  have "0 \<le> x / ulp x" using x ulp_pos [of x] by simp
  then have "roundTiesToEven 0 \<le> roundTiesToEven (x / ulp x)" by (rule roundTiesToEven_mono)
  then have "0 \<le> roundTiesToEven (x / ulp x)"
    using roundTiesToEven_int [of 0] by simp
  then show ?thesis using ulp_pos [of x] by (simp add: round64_pos [OF x])
qed

text \<open>A value with at most 53 significant bits, above the smallest exponent, is kept.\<close>

lemma round64_exact_pos:
  assumes "0 < k" and "k < 2 ^ 53" and "- 1074 \<le> q"
  shows "round64 (of_int k * pow2 q) = of_int k * pow2 q"
proof -
  define x where "x = of_int k * pow2 q"
  have x: "0 < x" using assms(1) pow2_pos [of q] by (simp add: x_def)
  have "real_of_int k < of_int (2 ^ 53)" using assms(2) by linarith
  then have "x < 2 ^ 53 * pow2 q" using pow2_pos [of q] by (simp add: x_def)
  also have "\<dots> = pow2 (53 + q)" by (simp add: pow2_add pow2_53)
  finally have "x < pow2 (53 + q)" .
  with exponent_bounds [OF x] have "exponent x < 53 + q" by (intro pow2_less_exp [of _ x]) simp_all
  then have le: "max (- 1022) (exponent x) - 52 \<le> q" using assms(3) by simp
  define d where "d = q - (max (- 1022) (exponent x) - 52)"
  have d: "0 \<le> d" using le by (simp add: d_def)
  have u: "ulp x = pow2 (q - d)" using x by (simp add: ulp_def d_def)
  have q: "pow2 q = pow2 (q - d) * pow2 d" using pow2_add [of "q - d" d] by simp
  have xq: "x = of_int k * pow2 d * pow2 (q - d)" by (simp add: x_def q)
  have "x / pow2 (q - d) = of_int k * pow2 d"
    using pow2_pos [of "q - d"] by (simp add: xq)
  then have "x / ulp x = of_int k * pow2 d" by (simp only: u)
  also have "\<dots> = of_int (k * 2 ^ nat d)" using d by (simp add: pow2_nat)
  finally have "roundTiesToEven (x / ulp x) = k * 2 ^ nat d"
    by (simp only: roundTiesToEven_int)
  then have "round64 x = of_int (k * 2 ^ nat d) * pow2 (q - d)"
    by (simp add: round64_pos [OF x] u)
  also have "\<dots> = x" using d by (simp add: x_def q pow2_nat)
  finally show ?thesis by (simp add: x_def)
qed

lemma round64_exact:
  assumes "\<bar>k\<bar> < 2 ^ 53" and "- 1074 \<le> q"
  shows "round64 (of_int k * pow2 q) = of_int k * pow2 q"
proof -
  consider "k = 0" | "0 < k" | "k < 0" by linarith
  then show ?thesis
  proof cases
    case 1
    then show ?thesis by (simp add: round64_zero)
  next
    case 2
    then show ?thesis using assms by (intro round64_exact_pos) simp_all
  next
    case 3
    then have "round64 (of_int (- k) * pow2 q) = of_int (- k) * pow2 q"
      using assms by (intro round64_exact_pos) simp_all
    then show ?thesis using round64_minus [of "of_int k * pow2 q"] by simp
  qed
qed

lemma round64_int: "\<bar>k\<bar> < 2 ^ 53 \<Longrightarrow> round64 (of_int k) = of_int k"
  using round64_exact [of k 0] by (simp add: pow2_def)


lemma round64_mono_pos:
  assumes "0 < x" and "x \<le> y"
  shows "round64 x \<le> round64 y"
proof -
  have y: "0 < y" using assms by simp
  define ex where "ex = max (- 1022) (exponent x)"
  define ey where "ey = max (- 1022) (exponent y)"
  have ux: "ulp x = pow2 (ex - 52)" using assms(1) by (simp add: ulp_def ex_def)
  have uy: "ulp y = pow2 (ey - 52)" using y by (simp add: ulp_def ey_def)
  have "exponent x \<le> exponent y" using assms by (rule exponent_mono)
  then have le: "ex \<le> ey" by (simp add: ex_def ey_def)
  show ?thesis
  proof (cases "ex = ey")
    case True
    then have u: "ulp x = ulp y" by (simp add: ux uy)
    have "x / ulp y \<le> y / ulp y" using assms(2) ulp_pos [of y] by (simp add: divide_right_mono)
    then have "roundTiesToEven (x / ulp y) \<le> roundTiesToEven (y / ulp y)"
      by (rule roundTiesToEven_mono)
    then show ?thesis
      using ulp_pos [of y] by (simp add: round64_pos [OF assms(1)] round64_pos [OF y] u)
  next
    case False
    with le have lt: "ex < ey" by simp
    have "x < pow2 (exponent x + 1)" using exponent_bounds [OF assms(1)] by simp
    also have "\<dots> \<le> pow2 (ex + 1)" by (rule pow2_mono) (simp add: ex_def)
    finally have "x / ulp x < pow2 (ex + 1) / ulp x"
      using ulp_pos [of x] by (simp add: divide_strict_right_mono)
    also have "pow2 (ex + 1) / ulp x = pow2 53"
      using pow2_diff [of "ex + 1" "ex - 52"] by (simp add: ux)
    also have "\<dots> = of_int (2 ^ 53)" by (simp add: pow2_53)
    finally have "roundTiesToEven (x / ulp x) \<le> roundTiesToEven (of_int (2 ^ 53))"
      by (intro roundTiesToEven_mono) simp
    then have "roundTiesToEven (x / ulp x) \<le> 2 ^ 53"
      by (simp only: roundTiesToEven_int)
    then have "real_of_int (roundTiesToEven (x / ulp x)) \<le> of_int (2 ^ 53)"
      by linarith
    then have "round64 x \<le> of_int (2 ^ 53) * ulp x"
      using ulp_pos [of x] by (simp add: round64_pos [OF assms(1)])
    also have "\<dots> = pow2 53 * pow2 (ex - 52)" by (simp add: ux pow2_53)
    also have "\<dots> = pow2 (53 + (ex - 52))" by (rule pow2_add [symmetric])
    also have "\<dots> \<le> pow2 ey" using lt by (intro pow2_mono) simp
    finally have 1: "round64 x \<le> pow2 ey" .
    have "ey = exponent y" using lt unfolding ex_def ey_def by linarith
    then have "pow2 ey \<le> y" using exponent_bounds [OF y] by simp
    then have "pow2 ey / ulp y \<le> y / ulp y"
      using ulp_pos [of y] by (simp add: divide_right_mono)
    moreover have "pow2 ey / ulp y = of_int (2 ^ 52)"
      using pow2_diff [of ey "ey - 52"] by (simp add: uy pow2_52)
    ultimately have "roundTiesToEven (of_int (2 ^ 52)) \<le> roundTiesToEven (y / ulp y)"
      by (intro roundTiesToEven_mono) simp
    then have "2 ^ 52 \<le> roundTiesToEven (y / ulp y)"
      by (simp only: roundTiesToEven_int)
    then have "real_of_int (2 ^ 52) \<le> of_int (roundTiesToEven (y / ulp y))"
      by linarith
    then have "of_int (2 ^ 52) * ulp y \<le> round64 y"
      using ulp_pos [of y] by (simp add: round64_pos [OF y])
    moreover have "of_int (2 ^ 52) * ulp y = pow2 52 * pow2 (ey - 52)"
      by (simp add: uy pow2_52)
    moreover have "pow2 52 * pow2 (ey - 52) = pow2 (52 + (ey - 52))"
      by (rule pow2_add [symmetric])
    ultimately have 2: "pow2 ey \<le> round64 y" by simp
    from 1 2 show ?thesis by simp
  qed
qed

lemma round64_mono:
  assumes "x \<le> y"
  shows "round64 x \<le> round64 y"
proof -
  consider "0 < x" | "x \<le> 0" "0 \<le> y" | "y < 0" by linarith
  then show ?thesis
  proof cases
    case 1
    then show ?thesis using assms by (rule round64_mono_pos)
  next
    case 2
    have "0 \<le> round64 (- x)" using 2 by (intro round64_nonneg) simp
    then have "round64 x \<le> 0" by (simp add: round64_minus)
    moreover have "0 \<le> round64 y" using 2 by (intro round64_nonneg)
    ultimately show ?thesis by simp
  next
    case 3
    then have "round64 (- y) \<le> round64 (- x)" using assms by (intro round64_mono_pos) simp_all
    then show ?thesis by (simp add: round64_minus)
  qed
qed






lemma foldl_round64_mono:
  "list_all2 (\<lambda>g p. g \<le> p) gs ps \<Longrightarrow> a \<le> b \<Longrightarrow>
   foldl (\<lambda>s x. round64 (s + x)) a gs \<le> foldl (\<lambda>s x. round64 (s + x)) b ps"
proof (induction gs ps arbitrary: a b rule: list_all2_induct)
  case Nil
  then show ?case by simp
next
  case (Cons g gs p ps)
  have "round64 (a + g) \<le> round64 (b + p)"
    using Cons.hyps(1) Cons.prems by (intro round64_mono) simp
  then show ?case using Cons.IH by simp
qed

lemma foldl_round64_nonneg:
  "list_all (\<lambda>x. 0 \<le> x) xs \<Longrightarrow> 0 \<le> a \<Longrightarrow> 0 \<le> foldl (\<lambda>s x. round64 (s + x)) a xs"
proof (induction xs arbitrary: a)
  case Nil
  then show ?case by simp
next
  case (Cons x xs)
  have "0 \<le> round64 (a + x)" using Cons.prems by (intro round64_nonneg) simp
  then show ?case using Cons.prems(1) Cons.IH by simp
qed


section \<open>Properties of totals, percentage and grade letter\<close>

lemma fold_update_keys:
  "distinct (map q_id qs) \<Longrightarrow>
   map fst (fold (\<lambda>q m. AList.update (q_id q) (v q) m) qs al) =
     map fst al @ filter (\<lambda>k. k \<notin> set (map fst al)) (map q_id qs)"
proof (induction qs arbitrary: al)
  case Nil
  then show ?case by simp
next
  case (Cons q qs)
  have d: "distinct (map q_id qs)" and n: "q_id q \<notin> set (map q_id qs)"
    using Cons.prems by simp_all
  show ?case
  proof (cases "q_id q \<in> set (map fst al)")
    case True
    then show ?thesis
      by (simp add: Cons.IH [OF d] update_keys)
  next
    case False
    have "filter (\<lambda>k. k \<notin> set (map fst al) \<and> k \<noteq> q_id q) (map q_id qs) =
          filter (\<lambda>k. k \<notin> set (map fst al)) (map q_id qs)"
    proof (rule filter_cong [OF refl])
      fix k assume "k \<in> set (map q_id qs)"
      with n have "k \<noteq> q_id q" by blast
      then show "(k \<notin> set (map fst al) \<and> k \<noteq> q_id q) = (k \<notin> set (map fst al))"
        by simp
    qed
    with False show ?thesis
      by (simp add: Cons.IH [OF d] update_keys conj_commute)
  qed
qed

lemma initialGrades_keys:
  "distinct (map q_id qs) \<Longrightarrow> map fst (initialGrades qs sas) = map q_id qs"
  by (simp add: initialGrades_def fold_update_keys)

lemma grading_step_keys:
  assumes "distinct (map q_id qs)" and "map fst gs = map q_id qs"
    and "on_questions qs [e]"
  shows "map fst (grading_step lower qs sas gs e) = map q_id qs"
proof (cases e)
  case (GradeChange k v)
  with assms(3) have "k \<in> set (map fst gs)"
    by (simp add: on_questions_def assms(2))
  then show ?thesis
    by (simp add: GradeChange handleGradeChange_def Let_def update_keys assms(2))
next
  case AutoGrade
  have "filter (\<lambda>k. k \<notin> set (map fst gs)) (map q_id qs) = []"
    by (simp add: assms(2))
  then show ?thesis
    by (simp add: AutoGrade handleAutoGrade_def fold_update_keys [OF assms(1)] assms(2))
qed

lemma foldl_grading_keys:
  assumes "distinct (map q_id qs)"
  shows "map fst gs = map q_id qs \<Longrightarrow> on_questions qs es \<Longrightarrow>
         map fst (foldl (grading_step lower qs sas) gs es) = map q_id qs"
proof (induction es arbitrary: gs)
  case Nil
  then show ?case by simp
next
  case (Cons e es)
  have e: "on_questions qs [e]" and es: "on_questions qs es"
    using Cons.prems(2) by (simp_all add: on_questions_def)
  show ?case
    using Cons.IH [OF grading_step_keys [OF assms Cons.prems(1) e] es] by simp
qed

lemma grading_run_keys:
  "distinct (map q_id qs) \<Longrightarrow> on_questions qs es \<Longrightarrow>
   map fst (grading_run lower qs sas es) = map q_id qs"
  unfolding grading_run_def
  by (rule foldl_grading_keys) (simp_all add: initialGrades_keys)

lemma grades_by_question:
  assumes "distinct (map q_id qs)" and "map fst gs = map q_id qs"
  shows "map snd gs = map (pointsEarned gs) qs"
proof -
  have d: "distinct (map fst gs)" using assms by simp
  have "map (pointsEarned gs) qs = map (\<lambda>k. case map_of gs k of Some g \<Rightarrow> g | None \<Rightarrow> Num 0) (map q_id qs)"
    by (simp add: pointsEarned_def comp_def)
  also have "\<dots> = map (\<lambda>p. case map_of gs (fst p) of Some g \<Rightarrow> g | None \<Rightarrow> Num 0) gs"
    by (simp add: assms(2) [symmetric] comp_def)
  also have "\<dots> = map snd gs"
  proof (intro map_cong refl)
    fix p assume "p \<in> set gs"
    then have "(fst p, snd p) \<in> set gs" by simp
    then have "map_of gs (fst p) = Some (snd p)"
      by (rule map_of_is_SomeI [OF d])
    then show "(case map_of gs (fst p) of Some g \<Rightarrow> g | None \<Rightarrow> Num 0) = snd p"
      by simp
  qed
  finally show ?thesis by simp
qed

lemma foldl_js_add_NaN: "foldl (\<lambda>sum grade. js_add sum grade) NaN xs = NaN"
  by (induction xs) simp_all

lemma foldl_js_add:
  "foldl (\<lambda>sum grade. js_add sum grade) (Num a) xs =
     (if NaN \<in> set xs then NaN
      else Num (foldl (\<lambda>sum x. round64 (sum + x)) a (map num_value xs)))"
proof (induction xs arbitrary: a)
  case Nil
  then show ?case by simp
next
  case (Cons x xs)
  then show ?case
    by (cases x) (simp_all add: foldl_js_add_NaN)
qed

lemma calculateMaxPoints_sum: "calculateMaxPoints qs = double_sum (map points qs)"
  by (simp add: calculateMaxPoints_def double_sum_def foldl_map)

lemma calculateTotalPoints_sum:
  assumes "distinct (map q_id qs)" and "map fst gs = map q_id qs"
  shows "calculateTotalPoints gs =
     (if list_ex (\<lambda>q. pointsEarned gs q = NaN) qs then NaN
      else Num (double_sum (map (\<lambda>q. num_value (pointsEarned gs q)) qs)))"
proof -
  have "NaN \<in> set (map (pointsEarned gs) qs) \<longleftrightarrow> list_ex (\<lambda>q. pointsEarned gs q = NaN) qs"
    by (induction qs) auto
  then show ?thesis
    by (simp add: calculateTotalPoints_def foldl_js_add grades_by_question [OF assms] comp_def
        double_sum_def)
qed






lemma summaryGradeLetter_NaN: "summaryGradeLetter NaN = ''F''"
  by (simp add: summaryGradeLetter_def)





text \<open>
  The grade letter follows the computed percentage and can differ from the band of
  \<open>100 * total / max\<close>: the grade typed as \<^verbatim>\<open>0.6\<close> on a question of one point is the double
  nearest to \<open>6 / 10\<close>, which is below it; the computed percentage is 60 and the letter D.
\<close>

lemma letter_differs_from_exact_band:
  "calculateTotalPoints [(''q1'', Num (round64 (6 / 10)))] = Num (round64 (6 / 10))
   \<and> calculateMaxPoints [one_point_question] = 1
   \<and> calculatePercentage [(''q1'', Num (round64 (6 / 10)))] [one_point_question] = Num 60
   \<and> summaryGradeLetter (Num 60) = ''D''
   \<and> 100 * round64 (6 / 10) / 1 < 60
   \<and> getGradeLetter (100 * round64 (6 / 10) / 1) = ''F''"
  by code_simp

section \<open>Properties of manual grades\<close>

lemma selectedOptionPoints_range:
  "0 \<le> points q \<Longrightarrow>
   0 \<le> selectedOptionPoints q sel opts \<and> selectedOptionPoints q sel opts \<le> points q"
  by (simp add: selectedOptionPoints_def split: option.splits)

lemma autoGrade_range:
  "0 \<le> points q \<Longrightarrow> 0 \<le> autoGrade lower sas q \<and> autoGrade lower sas q \<le> points q"
  by (simp add: autoGrade_def Let_def selectedOptionPoints_range)

lemma initialGrade_range:
  assumes "0 \<le> points q"
    and "case answer_of sas q of None \<Rightarrow> True
         | Some a \<Rightarrow> (case sa_points_earned a of None \<Rightarrow> True
                      | Some p \<Rightarrow> 0 \<le> p \<and> p \<le> points q)"
  shows "0 \<le> initialGrade sas q \<and> initialGrade sas q \<le> points q"
  using assms
  by (auto simp: initialGrade_def Let_def selectedOptionPoints_range split: option.splits)

lemma initialGrades_in_range:
  assumes "distinct (map q_id qs)" and "list_all (\<lambda>q. 0 \<le> points q) qs"
    and "stored_points_in_range qs sas"
  shows "grades_in_range qs (initialGrades qs sas)"
  unfolding grades_in_range_def list_all_iff
proof
  fix q assume q: "q \<in> set qs"
  have "0 \<le> initialGrade sas q \<and> initialGrade sas q \<le> points q"
    using assms(2,3) q
    by (intro initialGrade_range) (auto simp: list_all_iff stored_points_in_range_def)
  then show "case map_of (initialGrades qs sas) (q_id q) of
      None \<Rightarrow> False | Some (Num r) \<Rightarrow> 0 \<le> r \<and> r \<le> points q | Some NaN \<Rightarrow> False"
    by (simp add: initialGrades_lookup [OF assms(1) q])
qed

lemma grading_step_in_range:
  assumes "distinct (map q_id qs)" and "list_all (\<lambda>q. 0 \<le> points q) qs"
    and "grades_in_range qs gs" and "numeric_events [e]"
  shows "grades_in_range qs (grading_step lower qs sas gs e)"
proof (cases e)
  case AutoGrade
  show ?thesis
    unfolding grades_in_range_def list_all_iff
  proof
    fix q assume q: "q \<in> set qs"
    then have "0 \<le> points q" using assms(2) by (simp add: list_all_iff)
    then show "case map_of (grading_step lower qs sas gs e) (q_id q) of
        None \<Rightarrow> False | Some (Num r) \<Rightarrow> 0 \<le> r \<and> r \<le> points q | Some NaN \<Rightarrow> False"
      by (simp add: AutoGrade handleAutoGrade_lookup [OF assms(1) q] autoGrade_range)
  qed
next
  case (GradeChange k v)
  with assms(4) obtain r where v: "v = Num r"
    by (cases v) (simp_all add: numeric_events_def)
  show ?thesis
    unfolding grades_in_range_def list_all_iff
  proof
    fix q assume q: "q \<in> set qs"
    have p: "0 \<le> points q" using assms(2) q by (simp add: list_all_iff)
    have old: "case map_of gs (q_id q) of
        None \<Rightarrow> False | Some (Num r) \<Rightarrow> 0 \<le> r \<and> r \<le> points q | Some NaN \<Rightarrow> False"
      using assms(3) q by (simp add: grades_in_range_def list_all_iff)
    show "case map_of (grading_step lower qs sas gs e) (q_id q) of
        None \<Rightarrow> False | Some (Num r) \<Rightarrow> 0 \<le> r \<and> r \<le> points q | Some NaN \<Rightarrow> False"
    proof (cases "q_id q = k")
      case True
      have "find (\<lambda>x. q_id x = k) qs = Some q"
        using find_distinct_id [OF assms(1) q] True by simp
      then show ?thesis
        using p by (simp add: GradeChange v handleGradeChange_def Let_def update_conv' True)
    next
      case False
      then show ?thesis
        using old by (simp add: GradeChange handleGradeChange_def Let_def update_conv')
    qed
  qed
qed

lemma foldl_grading_in_range:
  assumes "distinct (map q_id qs)" and "list_all (\<lambda>q. 0 \<le> points q) qs"
  shows "grades_in_range qs gs \<Longrightarrow> numeric_events es \<Longrightarrow>
         grades_in_range qs (foldl (grading_step lower qs sas) gs es)"
proof (induction es arbitrary: gs)
  case Nil
  then show ?case by simp
next
  case (Cons e es)
  have e: "numeric_events [e]" and es: "numeric_events es"
    using Cons.prems(2) by (simp_all add: numeric_events_def)
  show ?case
    using Cons.IH [OF grading_step_in_range [OF assms Cons.prems(1) e] es] by simp
qed

text \<open>
  When the questions have distinct ids and points that are not negative, the stored points
  are in range and only numbers are typed, every grade lies between 0 and the points of its
  question.
\<close>

lemma numeric_grades_in_range:
  assumes "distinct (map q_id qs)" and "list_all (\<lambda>q. 0 \<le> points q) qs"
    and "stored_points_in_range qs sas" and "numeric_events es"
  shows "grades_in_range qs (grading_run lower qs sas es)"
  unfolding grading_run_def
  using assms(1,2) initialGrades_in_range [OF assms(1,2,3)] assms(4)
  by (rule foldl_grading_in_range)

text \<open>Then the total lies between 0 and the maximum, and the percentage between 0 and 100.\<close>

lemma numeric_totals_in_range:
  assumes "distinct (map q_id qs)" and "list_all (\<lambda>q. 0 \<le> points q) qs"
    and "stored_points_in_range qs sas" and "numeric_events es" and "on_questions qs es"
  shows "\<exists>t p. calculateTotalPoints (grading_run lower qs sas es) = Num t
           \<and> 0 \<le> t \<and> t \<le> calculateMaxPoints qs
           \<and> calculatePercentage (grading_run lower qs sas es) qs = Num p \<and> 0 \<le> p \<and> p \<le> 100"
proof -
  let ?gs = "grading_run lower qs sas es"
  have keys: "map fst ?gs = map q_id qs"
    using assms(1,5) by (rule grading_run_keys)
  have r: "grades_in_range qs ?gs"
    using assms(1-4) by (rule numeric_grades_in_range)
  have each: "pointsEarned ?gs q \<noteq> NaN \<and> 0 \<le> num_value (pointsEarned ?gs q)
              \<and> num_value (pointsEarned ?gs q) \<le> points q" if "q \<in> set qs" for q
  proof -
    from r that have "case map_of ?gs (q_id q) of
        None \<Rightarrow> False | Some (Num r) \<Rightarrow> 0 \<le> r \<and> r \<le> points q | Some NaN \<Rightarrow> False"
      by (simp add: grades_in_range_def list_all_iff)
    then obtain r where "map_of ?gs (q_id q) = Some (Num r)" and "0 \<le> r" and "r \<le> points q"
      by (cases "map_of ?gs (q_id q)") (auto split: jsnum.splits)
    then show ?thesis
      by (simp add: pointsEarned_def)
  qed
  let ?vs = "map (\<lambda>q. num_value (pointsEarned ?gs q)) qs"
  let ?t = "double_sum ?vs"
  have "\<not> list_ex (\<lambda>q. pointsEarned ?gs q = NaN) qs"
    using each by (auto simp: list_ex_iff)
  then have t: "calculateTotalPoints ?gs = Num ?t"
    by (simp add: calculateTotalPoints_sum [OF assms(1) keys])
  have "list_all (\<lambda>x. 0 \<le> x) ?vs"
    using each by (simp add: list_all_iff)
  then have t0: "0 \<le> ?t"
    unfolding double_sum_def by (rule foldl_round64_nonneg) simp
  have "list_all2 (\<lambda>g p. g \<le> p) ?vs (map points qs)"
    using each by (simp add: list_all2_map1 list_all2_map2 list_all2_same)
  then have tm: "?t \<le> calculateMaxPoints qs"
    unfolding calculateMaxPoints_sum double_sum_def by (rule foldl_round64_mono) simp
  have "\<exists>p. calculatePercentage ?gs qs = Num p \<and> 0 \<le> p \<and> p \<le> 100"
  proof (cases "0 < calculateMaxPoints qs")
    case True
    have one: "round64 1 = 1" and hundred: "round64 100 = 100"
      using round64_int [of 1] round64_int [of 100] by simp_all
    have q0: "0 \<le> ?t / calculateMaxPoints qs" using t0 True by simp
    have q1: "?t / calculateMaxPoints qs \<le> 1" using tm True by simp
    have r0: "0 \<le> round64 (?t / calculateMaxPoints qs)" using q0 by (rule round64_nonneg)
    have r1: "round64 (?t / calculateMaxPoints qs) \<le> 1"
      using round64_mono [OF q1] by (simp add: one)
    have "0 \<le> round64 (round64 (?t / calculateMaxPoints qs) * 100)"
      using r0 by (intro round64_nonneg) simp
    moreover have "round64 (round64 (?t / calculateMaxPoints qs) * 100) \<le> 100"
      using round64_mono [of "round64 (?t / calculateMaxPoints qs) * 100" 100] r1
      by (simp add: hundred)
    ultimately show ?thesis
      using True by (simp add: calculatePercentage_def Let_def t)
  next
    case False
    then show ?thesis by (simp add: calculatePercentage_def Let_def)
  qed
  with t t0 tm show ?thesis by blast
qed

text \<open>
  Claim C10, on the code. The grader clears the field of the first question:
  \<^verbatim>\<open>parseFloat('')\<close> is \<^verbatim>\<open>NaN\<close>, the clamp \<^verbatim>\<open>Math.max(0, Math.min(NaN, 6))\<close> is \<^verbatim>\<open>NaN\<close>, and
  \<^verbatim>\<open>NaN\<close> is stored as the grade. The total and the percentage are then \<^verbatim>\<open>NaN\<close>, so
  neither lies in its interval. (For numbers the clamp and the intervals hold, see
  \<open>numeric_grades_in_range\<close> and \<open>numeric_totals_in_range\<close>.)
\<close>

theorem cleared_grade_field_stores_NaN:
  "handleGradeChange ''q1'' NaN [example_mcq, example_short]
     (initialGrades [example_mcq, example_short] example_student_answers) =
     [(''q1'', NaN), (''q2'', Num 0)]
   \<and> calculateTotalPoints (grading_run ascii_lower [example_mcq, example_short] example_student_answers
        [GradeChange ''q1'' NaN]) = NaN
   \<and> calculatePercentage (grading_run ascii_lower [example_mcq, example_short] example_student_answers
        [GradeChange ''q1'' NaN]) [example_mcq, example_short] = NaN
   \<and> \<not> js_ge (calculateTotalPoints (grading_run ascii_lower [example_mcq, example_short]
        example_student_answers [GradeChange ''q1'' NaN])) 0"
  by code_simp

end
